theory Spec2Isabelle
  imports Main "HOL-Library.Char_ord"
begin

section \<open>The patterns of exporter.py and Python's \<open>re.search\<close>\<close>

text \<open>
  exporter.py uses two patterns, \<^verbatim>\<open>[0-9]+(?:\.[0-9]+){3}\<close> and \<^verbatim>\<open>ch[0-9]+\<close>.
  They are built from single characters, one character class, the greedy \<^verbatim>\<open>+\<close> on a
  class, sequencing and a fixed repetition count of a group, so the pattern syntax
  modelled here has just these forms. A string is a list of bytes; the patterns are ASCII
  and no byte of a multi-byte UTF-8 character is an ASCII byte, so a match on the bytes is
  the match Python finds on the code points.
\<close>

datatype atom = Chr char | Range char char

datatype regex = Atom atom | Plus atom | Eps | Seq regex regex

fun atom_ok :: "atom \<Rightarrow> char \<Rightarrow> bool" where
  "atom_ok (Chr a) c = (c = a)"
| "atom_ok (Range lo hi) c = (lo \<le> c \<and> c \<le> hi)"

text \<open>
  \<open>r{n}\<close> on a group without captures is \<open>n\<close> copies of the group in sequence.
\<close>

primrec times :: "nat \<Rightarrow> regex \<Rightarrow> regex" where
  "times 0 r = Eps"
| "times (Suc n) r = Seq r (times n r)"

text \<open>
  The backtracking matcher, anchored at the start of \<open>s\<close>: the list of the remainders
  of \<open>s\<close> after each way of matching \<open>r\<close>, in the order in which Python's matcher tries
  them. The greedy \<^verbatim>\<open>+\<close> tries the longest run first and gives characters back one at a
  time.
\<close>

fun rmatch :: "regex \<Rightarrow> string \<Rightarrow> string list" where
  "rmatch (Atom a) [] = []"
| "rmatch (Atom a) (c # cs) = (if atom_ok a c then [cs] else [])"
| "rmatch (Plus a) [] = []"
| "rmatch (Plus a) (c # cs) = (if atom_ok a c then rmatch (Plus a) cs @ [cs] else [])"
| "rmatch Eps s = [s]"
| "rmatch (Seq r1 r2) s = concat (map (rmatch r2) (rmatch r1 s))"

text \<open>
  \<open>re.search(r, s)\<close> followed by \<open>.group()\<close>: the start positions are tried from left to
  right (the end of the string included), and at the first one where the matcher succeeds
  its first way of matching is the match. \<open>None\<close> is Python's \<open>None\<close>.
\<close>

fun re_search :: "regex \<Rightarrow> string \<Rightarrow> string option" where
  "re_search r [] = (case rmatch r [] of t # _ \<Rightarrow> Some [] | [] \<Rightarrow> None)"
| "re_search r (c # cs) =
     (case rmatch r (c # cs) of
        t # _ \<Rightarrow> Some (take (length (c # cs) - length t) (c # cs))
      | [] \<Rightarrow> re_search r cs)"

definition digit :: atom where
  "digit = Range CHR ''0'' CHR ''9''"

text \<open>\<^verbatim>\<open>r'[0-9]+(?:\.[0-9]+){3}'\<close> (line 70)\<close>

definition ip_pattern :: regex where
  "ip_pattern = Seq (Plus digit) (times 3 (Seq (Atom (Chr CHR ''.'')) (Plus digit)))"

text \<open>\<^verbatim>\<open>r'ch[0-9]+'\<close> (lines 83 and 109)\<close>

definition channel_pattern :: regex where
  "channel_pattern = Seq (Atom (Chr CHR ''c'')) (Seq (Atom (Chr CHR ''h'')) (Plus digit))"

section \<open>The field extractors\<close>

text \<open>
  Lines 70--71: \<^verbatim>\<open>ip = re.search(..., status); ip = ip.group() if ip else '127.0.0.1'\<close>.
  A match object is always true.
\<close>

definition extract_ip :: "string \<Rightarrow> string" where
  "extract_ip status =
     (case re_search ip_pattern status of Some m \<Rightarrow> m | None \<Rightarrow> ''127.0.0.1'')"

text \<open>Lines 83--84 and 109--110.\<close>

definition extract_channel :: "string \<Rightarrow> string" where
  "extract_channel text =
     (case re_search channel_pattern text of Some m \<Rightarrow> m | None \<Rightarrow> ''ch0'')"

text \<open>
  What the code can raise. \<open>FetchError\<close> stands for whatever \<open>requests.get\<close> raises
  and \<open>DecodeError\<close> for what \<open>Response.json\<close> raises; the others are Python's own.
\<close>

datatype error =
  FetchError | DecodeError | AttributeError | TypeError | ValueError | IndexError | OverflowError

text \<open>\<open>str.split(sep)\<close> for a separator of one character: never the empty list.\<close>

fun py_split :: "char \<Rightarrow> string \<Rightarrow> string list" where
  "py_split sep [] = [[]]"
| "py_split sep (c # cs) =
     (if c = sep then [] # py_split sep cs
      else (case py_split sep cs of
              [] \<Rightarrow> [[c]]
            | p # ps \<Rightarrow> (c # p) # ps))"

text \<open>\<open>xs[0]\<close> raises IndexError on the empty list.\<close>

definition py_first :: "'a list \<Rightarrow> error + 'a" where
  "py_first xs = (case xs of [] \<Rightarrow> Inl IndexError | x # _ \<Rightarrow> Inr x)"

text \<open>Line 111: \<^verbatim>\<open>info.split('-')[0] if '-' in info else 'unknown'\<close>.\<close>

definition extract_status :: "string \<Rightarrow> error + string" where
  "extract_status info =
     (if CHR ''-'' \<in> set info then py_first (py_split CHR ''-'' info) else Inr ''unknown'')"

section \<open>Decoded JSON and the library calls\<close>

text \<open>
  A value as \<open>Response.json\<close> returns it. An object is the list of its items in the
  order of the \<open>dict\<close>, whose keys are distinct. \<open>'f\<close> is the type of Python's floats;
  the code computes nothing on a float, it only passes it on to the libraries.
\<close>

datatype 'f json =
  JNull | JBool bool | JInt int | JFloat 'f | JStr string | JArr "'f json list"
  | JObj "(string \<times> 'f json) list"

text \<open>
  The outcome of \<^verbatim>\<open>dvr = requests.get(url = ...)\<close> followed by \<^verbatim>\<open>dvr.json()\<close>: the first
  raises, the second raises, or the body decodes. \<open>requests.get\<close> does not raise on an
  HTTP error status.
\<close>

datatype 'f reply = GetRaises | JsonRaises | Body "'f json"

text \<open>\<open>d.get(key, default)\<close> on a \<open>dict\<close>.\<close>

definition py_get :: "(string \<times> 'f json) list \<Rightarrow> string \<Rightarrow> 'f json \<Rightarrow> 'f json" where
  "py_get d key dflt = (case map_of d key of None \<Rightarrow> dflt | Some v \<Rightarrow> v)"

text \<open>\<open>x.get(key, default)\<close> on any decoded value: only a \<open>dict\<close> has \<open>get\<close>.\<close>

definition dict_get :: "'f json \<Rightarrow> string \<Rightarrow> 'f json \<Rightarrow> error + 'f json" where
  "dict_get x key dflt =
     (case x of JObj d \<Rightarrow> Inr (py_get d key dflt) | _ \<Rightarrow> Inl AttributeError)"

text \<open>\<open>x.items()\<close>: only a \<open>dict\<close> has \<open>items\<close>.\<close>

definition dict_items :: "'f json \<Rightarrow> error + (string \<times> 'f json) list" where
  "dict_items x = (case x of JObj d \<Rightarrow> Inr d | _ \<Rightarrow> Inl AttributeError)"

text \<open>
  \<open>for client in x\<close>: a list gives its elements, a \<open>dict\<close> its keys, a string its
  characters as strings of length one, and the other values are not iterable.
\<close>

definition py_iter :: "'f json \<Rightarrow> error + 'f json list" where
  "py_iter x =
     (case x of
        JArr xs \<Rightarrow> Inr xs
      | JObj d \<Rightarrow> Inr (map (\<lambda>(k, v). JStr k) d)
      | JStr s \<Rightarrow> Inr (map (\<lambda>c. JStr [c]) s)
      | _ \<Rightarrow> Inl TypeError)"

text \<open>
  The collaborators that are not part of the repository.
  \<^item> \<open>geo_lookup\<close> is \<open>geolite2.lookup\<close>: it raises, returns \<open>None\<close>, or returns a record
    whose \<open>location\<close> is a pair of coordinates (floats) or \<open>None\<close>.
  \<^item> \<open>float_raises\<close> is what \<open>float(v)\<close> raises, if anything: \<open>Gauge.set(v)\<close> stores
    \<open>float(v)\<close>.
  \<^item> \<open>py_repr\<close> is \<open>str(v)\<close> on numbers, lists and dicts: \<open>Gauge.labels\<close> turns every
    label value into a string.
\<close>

datatype 'f geo_reply = GeoRaises | GeoNone | GeoInfo "('f \<times> 'f) option"

record 'f env =
  geo_lookup :: "string \<Rightarrow> 'f geo_reply"
  float_raises :: "'f json \<Rightarrow> error option"
  py_repr :: "'f json \<Rightarrow> string"

text \<open>\<open>str(v)\<close> as \<open>Gauge.labels\<close> applies it.\<close>

definition label_str :: "'f env \<Rightarrow> 'f json \<Rightarrow> string" where
  "label_str env v =
     (case v of
        JStr s \<Rightarrow> s
      | JNull \<Rightarrow> ''None''
      | JBool b \<Rightarrow> (if b then ''True'' else ''False'')
      | _ \<Rightarrow> py_repr env v)"

text \<open>
  \<open>Gauge.set(v)\<close> on a gauge without labels: the gauge then holds \<open>float(v)\<close>, written
  here as \<open>v\<close> itself, unless \<open>float\<close> raises.
\<close>

definition scalar_set :: "'f env \<Rightarrow> 'f json \<Rightarrow> error + 'f json" where
  "scalar_set env v = (case float_raises env v of Some e \<Rightarrow> Inl e | None \<Rightarrow> Inr v)"

text \<open>
  A gauge with labels is the \<open>dict\<close> of its children, from the tuple of label values to
  the value. \<open>g.labels(...).set(v)\<close> overwrites the child with these labels or adds it
  at the end; \<open>g.clear()\<close> leaves the empty list.
\<close>

fun set_child :: "'l \<Rightarrow> 'v \<Rightarrow> ('l \<times> 'v) list \<Rightarrow> ('l \<times> 'v) list" where
  "set_child l v [] = [(l, v)]"
| "set_child l v ((k, w) # fam) =
     (if k = l then (l, v) # fam else (k, w) # set_child l v fam)"

section \<open>AppMetrics\<close>

text \<open>
  The object \<open>self\<close>: the two settings and the five gauges of \<open>__init__\<close>. The children
  of a gauge are kept under the strings of their label values, as \<open>Gauge.labels\<close> makes
  them.
\<close>

record 'f app_metrics =
  channels_api :: string
  polling_interval_seconds :: int
  streams :: "((string \<times> string \<times> string \<times> string) \<times> int) list"
  recordings :: "((string \<times> string \<times> string) \<times> int) list"
  shows_gauge :: "'f json"
  airings :: "'f json"
  clients :: "(string list \<times> int) list"

definition init :: "string \<Rightarrow> int \<Rightarrow> 'f app_metrics" where
  "init api seconds =
     \<lparr>channels_api = api, polling_interval_seconds = seconds, streams = [],
      recordings = [], shows_gauge = JInt 0, airings = JInt 0, clients = []\<rparr>"

text \<open>
  A method either returns, or raises with \<open>self\<close> as it is at that moment.
\<close>

datatype 's outcome = Done 's | Raised error 's

fun state_of :: "'s outcome \<Rightarrow> 's" where
  "state_of (Done s) = s"
| "state_of (Raised e s) = s"

subsection \<open>fetch_dvr\<close>

text \<open>
  Lines 74--81. The second component lists the addresses that were passed to
  \<open>geolite2.lookup\<close>. Whatever is raised inside the \<open>try\<close>, by the lookup or by
  unpacking a \<open>location\<close> that is \<open>None\<close>, is caught, and the coordinates stay \<open>None\<close>.
\<close>

definition lookup_coords ::
  "'f env \<Rightarrow> string \<Rightarrow> ('f option \<times> 'f option) \<times> string list" where
  "lookup_coords env ip =
     (if ip \<noteq> [] \<and> \<not> ip = ''127.0.0.1'' then
        ((case geo_lookup env ip of
            GeoRaises \<Rightarrow> (None, None)
          | GeoNone \<Rightarrow> (None, None)
          | GeoInfo None \<Rightarrow> (None, None)
          | GeoInfo (Some (la, lo)) \<Rightarrow> (Some la, Some lo)), [ip])
      else ((None, None), []))"

text \<open>Lines 70--84: the label values of one activity.\<close>

definition stream_record ::
  "'f env \<Rightarrow> string \<Rightarrow> string \<times> string \<times> 'f option \<times> 'f option" where
  "stream_record env status =
     (let ip = extract_ip status;
          (latitude, longitude) = fst (lookup_coords env ip);
          channel = extract_channel status
      in (ip, channel, latitude, longitude))"

text \<open>
  \<open>labels(ip = ip, channel = channel, latitude = latitude, longitude = longitude)\<close>: the
  tuple of the strings of the four values; \<open>str\<close> of a string is the string.
\<close>

definition coord_str :: "'f env \<Rightarrow> 'f option \<Rightarrow> string" where
  "coord_str env x = label_str env (case x of None \<Rightarrow> JNull | Some c \<Rightarrow> JFloat c)"

definition stream_labels ::
  "'f env \<Rightarrow> string \<times> string \<times> 'f option \<times> 'f option \<Rightarrow>
     string \<times> string \<times> string \<times> string" where
  "stream_labels env r =
     (case r of
        (ip, channel, latitude, longitude) \<Rightarrow>
          (ip, channel, coord_str env latitude, coord_str env longitude))"

text \<open>Lines 87--88: a string is true when it is not empty.\<close>

definition publish_stream ::
  "'f env \<Rightarrow> string \<Rightarrow> ((string \<times> string \<times> string \<times> string) \<times> int) list \<Rightarrow>
     ((string \<times> string \<times> string \<times> string) \<times> int) list" where
  "publish_stream env status fam =
     (case stream_record env status of
        (ip, channel, latitude, longitude) \<Rightarrow>
          if ip \<noteq> [] \<and> channel \<noteq> []
          then set_child (stream_labels env (ip, channel, latitude, longitude)) 1 fam
          else fam)"

text \<open>
  Lines 69--88, the loop over \<open>activities.items()\<close>. \<open>re.search\<close> raises TypeError on
  a value that is not a string.
\<close>

fun stream_loop ::
  "'f env \<Rightarrow> (string \<times> 'f json) list \<Rightarrow> ((string \<times> string \<times> string \<times> string) \<times> int) list \<Rightarrow>
     ((string \<times> string \<times> string \<times> string) \<times> int) list outcome" where
  "stream_loop env [] fam = Done fam"
| "stream_loop env ((key, v) # rest) fam =
     (case v of
        JStr status \<Rightarrow> stream_loop env rest (publish_stream env status fam)
      | _ \<Rightarrow> Raised TypeError fam)"

text \<open>Lines 90--92.\<close>

definition publish_guide :: "'f env \<Rightarrow> 'f json \<Rightarrow> 'f app_metrics \<Rightarrow> 'f app_metrics outcome" where
  "publish_guide env status_data self =
     (case dict_get status_data ''guide'' (JObj []) of
        Inl e \<Rightarrow> Raised e self
      | Inr guide \<Rightarrow>
          (case dict_get guide ''num_shows'' (JInt 0) of
             Inl e \<Rightarrow> Raised e self
           | Inr n \<Rightarrow>
               (case scalar_set env n of
                  Inl e \<Rightarrow> Raised e self
                | Inr v \<Rightarrow>
                    (case dict_get guide ''num_airings'' (JInt 0) of
                       Inl e \<Rightarrow> Raised e (self\<lparr>shows_gauge := v\<rparr>)
                     | Inr a \<Rightarrow>
                         (case scalar_set env a of
                            Inl e \<Rightarrow> Raised e (self\<lparr>shows_gauge := v\<rparr>)
                          | Inr w \<Rightarrow> Done (self\<lparr>shows_gauge := v, airings := w\<rparr>))))))"

text \<open>
  Lines 59--92. The activities are read before \<open>streams\<close> is cleared, and their items
  after.
\<close>

definition fetch_dvr :: "'f env \<Rightarrow> 'f reply \<Rightarrow> 'f app_metrics \<Rightarrow> 'f app_metrics outcome" where
  "fetch_dvr env dvr self =
     (case dvr of
        GetRaises \<Rightarrow> Raised FetchError self
      | JsonRaises \<Rightarrow> Raised DecodeError self
      | Body status_data \<Rightarrow>
          (case dict_get status_data ''activity'' (JObj []) of
             Inl e \<Rightarrow> Raised e self
           | Inr activities \<Rightarrow>
               (case dict_items activities of
                  Inl e \<Rightarrow> Raised e (self\<lparr>streams := []\<rparr>)
                | Inr items \<Rightarrow>
                    (case stream_loop env items [] of
                       Raised e fam \<Rightarrow> Raised e (self\<lparr>streams := fam\<rparr>)
                     | Done fam \<Rightarrow> publish_guide env status_data (self\<lparr>streams := fam\<rparr>)))))"

subsection \<open>fetch_recordings\<close>

text \<open>Lines 108--112, the loop over \<open>status_data.items()\<close>.\<close>

fun recording_loop ::
  "(string \<times> 'f json) list \<Rightarrow> ((string \<times> string \<times> string) \<times> int) list \<Rightarrow>
     ((string \<times> string \<times> string) \<times> int) list outcome" where
  "recording_loop [] fam = Done fam"
| "recording_loop ((name, v) # rest) fam =
     (case v of
        JStr info \<Rightarrow>
          (let channel = extract_channel info in
           case extract_status info of
             Inl e \<Rightarrow> Raised e fam
           | Inr status \<Rightarrow> recording_loop rest (set_child (name, status, channel) 1 fam))
      | _ \<Rightarrow> Raised TypeError fam)"

text \<open>Lines 101--112. \<open>recordings\<close> is cleared before the items are read.\<close>

definition fetch_recordings :: "'f reply \<Rightarrow> 'f app_metrics \<Rightarrow> 'f app_metrics outcome" where
  "fetch_recordings dvr self =
     (case dvr of
        GetRaises \<Rightarrow> Raised FetchError self
      | JsonRaises \<Rightarrow> Raised DecodeError self
      | Body status_data \<Rightarrow>
          (case dict_items status_data of
             Inl e \<Rightarrow> Raised e (self\<lparr>recordings := []\<rparr>)
           | Inr items \<Rightarrow>
               (case recording_loop items [] of
                  Raised e fam \<Rightarrow> Raised e (self\<lparr>recordings := fam\<rparr>)
                | Done fam \<Rightarrow> Done (self\<lparr>recordings := fam\<rparr>))))"

subsection \<open>fetch_clients\<close>

definition client_keys :: "string list" where
  "client_keys =
     [''app_build'', ''app_bundle'', ''app_version'', ''connected'', ''device'', ''hostname'',
      ''id'', ''machine_id'', ''platform'', ''remote_ip'', ''seen_at'', ''seen_from'']"

text \<open>Lines 129--142: \<open>client.get(key)\<close> is \<open>None\<close> for a missing key.\<close>

definition client_record :: "'f env \<Rightarrow> (string \<times> 'f json) list \<Rightarrow> string list" where
  "client_record env client = map (\<lambda>key. label_str env (py_get client key JNull)) client_keys"

text \<open>Lines 128--143, the loop over \<open>status_data\<close>.\<close>

fun client_loop ::
  "'f env \<Rightarrow> 'f json list \<Rightarrow> (string list \<times> int) list \<Rightarrow> (string list \<times> int) list outcome" where
  "client_loop env [] fam = Done fam"
| "client_loop env (c # rest) fam =
     (case c of
        JObj client \<Rightarrow> client_loop env rest (set_child (client_record env client) 1 fam)
      | _ \<Rightarrow> Raised AttributeError fam)"

text \<open>Lines 121--143. \<open>clients\<close> is cleared before the iteration starts.\<close>

definition fetch_clients :: "'f env \<Rightarrow> 'f reply \<Rightarrow> 'f app_metrics \<Rightarrow> 'f app_metrics outcome" where
  "fetch_clients env dvr self =
     (case dvr of
        GetRaises \<Rightarrow> Raised FetchError self
      | JsonRaises \<Rightarrow> Raised DecodeError self
      | Body status_data \<Rightarrow>
          (case py_iter status_data of
             Inl e \<Rightarrow> Raised e (self\<lparr>clients := []\<rparr>)
           | Inr cs \<Rightarrow>
               (case client_loop env cs [] of
                  Raised e fam \<Rightarrow> Raised e (self\<lparr>clients := fam\<rparr>)
                | Done fam \<Rightarrow> Done (self\<lparr>clients := fam\<rparr>))))"

subsection \<open>run_metrics_loop\<close>

text \<open>What the three endpoints answer during one pass of the loop.\<close>

record 'f cycle =
  dvr_reply :: "'f reply"
  programs_reply :: "'f reply"
  clients_reply :: "'f reply"

text \<open>\<open>time.sleep\<close> raises ValueError on a negative length.\<close>

definition sleep :: "'f app_metrics \<Rightarrow> 'f app_metrics outcome" where
  "sleep self = (if polling_interval_seconds self < 0 then Raised ValueError self else Done self)"

text \<open>Lines 47--50, one pass: an exception leaves the method at once.\<close>

definition run_cycle :: "'f env \<Rightarrow> 'f cycle \<Rightarrow> 'f app_metrics \<Rightarrow> 'f app_metrics outcome" where
  "run_cycle env c self =
     (case fetch_dvr env (dvr_reply c) self of
        Raised e s \<Rightarrow> Raised e s
      | Done s1 \<Rightarrow>
          (case fetch_recordings (programs_reply c) s1 of
             Raised e s \<Rightarrow> Raised e s
           | Done s2 \<Rightarrow>
               (case fetch_clients env (clients_reply c) s2 of
                  Raised e s \<Rightarrow> Raised e s
                | Done s3 \<Rightarrow> sleep s3)))"


section \<open>What the specification calls a match\<close>

definition is_digit :: "char \<Rightarrow> bool" where
  "is_digit c = (CHR ''0'' \<le> c \<and> c \<le> CHR ''9'')"

definition digit_group :: "string \<Rightarrow> bool" where
  "digit_group g = (g \<noteq> [] \<and> list_all is_digit g)"

text \<open>Four dot-separated groups of one or more digits.\<close>

definition ipv4_shaped :: "string \<Rightarrow> bool" where
  "ipv4_shaped m =
     (let gs = py_split CHR ''.'' m in length gs = 4 \<and> list_all digit_group gs)"

text \<open>The literal \<open>ch\<close> followed by one or more digits.\<close>

definition channel_shaped :: "string \<Rightarrow> bool" where
  "channel_shaped m = (take 2 m = ''ch'' \<and> digit_group (drop 2 m))"

text \<open>
  \<open>first_match P s m\<close>: \<open>m\<close> is the first substring of \<open>s\<close> with the shape \<open>P\<close>: it
  occurs in \<open>s\<close>, no substring with the shape starts to its left, and none that starts
  where it starts is longer.
\<close>

definition first_match :: "(string \<Rightarrow> bool) \<Rightarrow> string \<Rightarrow> string \<Rightarrow> bool" where
  "first_match P s m =
     (\<exists>pre post. s = pre @ m @ post \<and> P m \<and>
        (\<forall>pre' m' post'. s = pre' @ m' @ post' \<and> P m' \<longrightarrow>
           length pre < length pre' \<or> (length pre = length pre' \<and> length m' \<le> length m)))"

definition no_match :: "(string \<Rightarrow> bool) \<Rightarrow> string \<Rightarrow> bool" where
  "no_match P s = (\<forall>pre m post. s = pre @ m @ post \<longrightarrow> \<not> P m)"

text \<open>The language of a pattern, for the proofs.\<close>

fun lang :: "regex \<Rightarrow> string set" where
  "lang (Atom a) = {[c] | c. atom_ok a c}"
| "lang (Plus a) = {w. w \<noteq> [] \<and> (\<forall>c \<in> set w. atom_ok a c)}"
| "lang Eps = {[]}"
| "lang (Seq r1 r2) = {u @ v | u v. u \<in> lang r1 \<and> v \<in> lang r2}"

text \<open>
  The explicit form of a dotted quad, the number of dots of a string, and a string that
  does not go on with a character of the class \<open>a\<close>.
\<close>

definition quad :: "string \<Rightarrow> bool" where
  "quad m =
     (\<exists>a b c d. digit_group a \<and> digit_group b \<and> digit_group c \<and> digit_group d \<and>
        m = a @ CHR ''.'' # b @ CHR ''.'' # c @ CHR ''.'' # d)"

definition dots :: "string \<Rightarrow> nat" where
  "dots w = length (filter (\<lambda>c. c = CHR ''.'') w)"

definition stops :: "atom \<Rightarrow> string \<Rightarrow> bool" where
  "stops a t = (case t of [] \<Rightarrow> True | c # _ \<Rightarrow> \<not> atom_ok a c)"

text \<open>
  Concrete collaborators for the examples. A float is given by its text, which is also
  its \<open>str\<close>. One geolocation backend raises on every address, the other knows the
  single address \<open>10.0.0.5\<close>. \<open>float\<close> accepts numbers and booleans and raises
  TypeError on the rest, and \<open>str\<close> of an integer, a list or a \<open>dict\<close> is not needed:
  the examples have none of them as a label value.
\<close>

definition example_float_raises :: "string json \<Rightarrow> error option" where
  "example_float_raises v =
     (case v of JInt n \<Rightarrow> None | JFloat x \<Rightarrow> None | JBool b \<Rightarrow> None | _ \<Rightarrow> Some TypeError)"

definition example_repr :: "string json \<Rightarrow> string" where
  "example_repr v = (case v of JFloat x \<Rightarrow> x | _ \<Rightarrow> ''<repr>'')"

definition raising_geo :: "string \<Rightarrow> string geo_reply" where
  "raising_geo ip = GeoRaises"

definition known_geo :: "string \<Rightarrow> string geo_reply" where
  "known_geo ip = (if ip = ''10.0.0.5'' then GeoInfo (Some (''48.85'', ''2.35'')) else GeoNone)"

definition raising_env :: "string env" where
  "raising_env =
     \<lparr>geo_lookup = raising_geo, float_raises = example_float_raises, py_repr = example_repr\<rparr>"

definition known_env :: "string env" where
  "known_env =
     \<lparr>geo_lookup = known_geo, float_raises = example_float_raises, py_repr = example_repr\<rparr>"

text \<open>
  The bodies of the three end-to-end scenarios of the specification, the pass of the loop
  that receives them, the object after \<open>__init__\<close> with the default settings, and the
  object once that pass has published them.
\<close>

definition scenario_dvr :: "string json" where
  "scenario_dvr =
     JObj [(''activity'', JObj [(''a1'', JStr ''ch12 Streaming from 10.0.0.5'')]),
           (''guide'', JObj [(''num_shows'', JInt 40), (''num_airings'', JInt 900)])]"

definition scenario_programs :: "string json" where
  "scenario_programs = JObj [(''MyShow'', JStr ''REC-ch5-details'')]"

definition scenario_clients :: "string json" where
  "scenario_clients = JArr [JObj [(''id'', JStr ''abc''), (''remote_ip'', JStr ''1.2.3.4'')]]"

definition scenario_cycle :: "string cycle" where
  "scenario_cycle =
     \<lparr>dvr_reply = Body scenario_dvr, programs_reply = Body scenario_programs,
      clients_reply = Body scenario_clients\<rparr>"

definition start :: "string app_metrics" where
  "start = init ''http://localhost:8089'' 5"

definition published :: "string app_metrics" where
  "published =
     \<lparr>channels_api = ''http://localhost:8089'', polling_interval_seconds = 5,
      streams = [((''10.0.0.5'', ''ch12'', ''48.85'', ''2.35''), 1)],
      recordings = [((''MyShow'', ''REC'', ''ch5''), 1)],
      shows_gauge = JInt 40, airings = JInt 900,
      clients = [([''None'', ''None'', ''None'', ''None'', ''None'', ''None'', ''abc'', ''None'',
                   ''None'', ''1.2.3.4'', ''None'', ''None''], 1)]\<rparr>"

text \<open>A pass in which the server reports no activity, no recording and no client.\<close>

definition idle_cycle :: "string cycle" where
  "idle_cycle =
     \<lparr>dvr_reply = Body (JObj []), programs_reply = Body (JObj []),
      clients_reply = Body (JArr [])\<rparr>"






section \<open>The matcher and the language of a pattern\<close>

lemma rmatch_Plus_set: "set (rmatch (Plus a) s) = {t. \<exists>u. u \<noteq> [] \<and> (\<forall>c\<in>set u. atom_ok a c) \<and> s = u @ t}"
proof (induction s)
  case Nil
  then show ?case by simp
next
  case (Cons c cs)
  show ?case
  proof (cases "atom_ok a c")
    case True
    show ?thesis
    proof (intro set_eqI iffI)
      fix t assume "t \<in> set (rmatch (Plus a) (c # cs))"
      with True have "t \<in> set (rmatch (Plus a) cs) \<or> t = cs" by auto
      then show "t \<in> {t. \<exists>u. u \<noteq> [] \<and> (\<forall>c\<in>set u. atom_ok a c) \<and> c # cs = u @ t}"
      proof
        assume "t \<in> set (rmatch (Plus a) cs)"
        with Cons.IH obtain u where "u \<noteq> []" "\<forall>c\<in>set u. atom_ok a c" "cs = u @ t" by auto
        with True have "c # u \<noteq> [] \<and> (\<forall>x\<in>set (c # u). atom_ok a x) \<and> c # cs = (c # u) @ t" by simp
        then show ?thesis by blast
      next
        assume "t = cs"
        with True have "[c] \<noteq> [] \<and> (\<forall>x\<in>set [c]. atom_ok a x) \<and> c # cs = [c] @ t" by simp
        then show ?thesis by blast
      qed
    next
      fix t assume "t \<in> {t. \<exists>u. u \<noteq> [] \<and> (\<forall>c\<in>set u. atom_ok a c) \<and> c # cs = u @ t}"
      then obtain u where u: "u \<noteq> []" "\<forall>c\<in>set u. atom_ok a c" "c # cs = u @ t" by auto
      then obtain u' where u': "u = c # u'" "cs = u' @ t" by (cases u) auto
      show "t \<in> set (rmatch (Plus a) (c # cs))"
      proof (cases "u' = []")
        case True
        with u' \<open>atom_ok a c\<close> show ?thesis by simp
      next
        case False
        with u u' have "t \<in> {t. \<exists>u. u \<noteq> [] \<and> (\<forall>c\<in>set u. atom_ok a c) \<and> cs = u @ t}" by auto
        with Cons.IH \<open>atom_ok a c\<close> show ?thesis by simp
      qed
    qed
  next
    case False
    then show ?thesis by (auto simp: Cons_eq_append_conv)
  qed
qed

lemma rmatch_set: "set (rmatch r s) = {t. \<exists>u \<in> lang r. s = u @ t}"
proof (induction r arbitrary: s)
  case (Atom a)
  then show ?case by (cases s) auto
next
  case (Plus a)
  then show ?case by (auto simp: rmatch_Plus_set)
next
  case Eps
  then show ?case by auto
next
  case (Seq r1 r2)
  show ?case
  proof (intro set_eqI iffI)
    fix t assume "t \<in> set (rmatch (Seq r1 r2) s)"
    then obtain x where "x \<in> set (rmatch r1 s)" "t \<in> set (rmatch r2 x)" by auto
    with Seq obtain u v where "u \<in> lang r1" "s = u @ x" "v \<in> lang r2" "x = v @ t" by auto
    then have "u @ v \<in> lang (Seq r1 r2) \<and> s = (u @ v) @ t" by auto
    then show "t \<in> {t. \<exists>u\<in>lang (Seq r1 r2). s = u @ t}" by blast
  next
    fix t assume "t \<in> {t. \<exists>u\<in>lang (Seq r1 r2). s = u @ t}"
    then obtain u v where uv: "u \<in> lang r1" "v \<in> lang r2" "s = (u @ v) @ t" by auto
    then have "v @ t \<in> set (rmatch r1 s)" using Seq.IH(1) by auto
    moreover have "t \<in> set (rmatch r2 (v @ t))" using uv Seq.IH(2) by auto
    ultimately show "t \<in> set (rmatch (Seq r1 r2) s)" by auto
  qed
qed

lemma rmatch_suffix: "t \<in> set (rmatch r s) \<Longrightarrow> \<exists>u. u \<in> lang r \<and> s = u @ t"
  by (auto simp: rmatch_set)

lemma rmatch_complete: "u \<in> lang r \<Longrightarrow> rmatch r (u @ t) \<noteq> []"
proof -
  assume "u \<in> lang r"
  then have "t \<in> set (rmatch r (u @ t))" by (auto simp: rmatch_set)
  then show ?thesis by auto
qed

lemma re_search_None: "re_search r s = None \<longleftrightarrow> (\<forall>pre rest. s = pre @ rest \<longrightarrow> rmatch r rest = [])"
proof (induction s)
  case Nil
  then show ?case by (auto split: list.splits)
next
  case (Cons c cs)
  show ?case
  proof (cases "rmatch r (c # cs)")
    case Nil
    then have "re_search r (c # cs) = re_search r cs" by simp
    moreover have "(\<forall>pre rest. c # cs = pre @ rest \<longrightarrow> rmatch r rest = []) \<longleftrightarrow>
       (\<forall>pre rest. cs = pre @ rest \<longrightarrow> rmatch r rest = [])"
      using Nil by (auto simp: Cons_eq_append_conv)
    ultimately show ?thesis using Cons.IH by simp
  next
    case (Cons t ts)
    then have "re_search r (c # cs) \<noteq> None" by simp
    moreover have "\<not> (\<forall>pre rest. c # cs = pre @ rest \<longrightarrow> rmatch r rest = [])"
      using Cons by (metis append_Nil list.distinct(1))
    ultimately show ?thesis by blast
  qed
qed

lemma re_search_Some:
  "re_search r s = Some m \<Longrightarrow>
     \<exists>pre post. s = pre @ m @ post \<and> rmatch r (m @ post) \<noteq> [] \<and> hd (rmatch r (m @ post)) = post \<and>
       m \<in> lang r \<and> (\<forall>pre' rest. s = pre' @ rest \<and> length pre' < length pre \<longrightarrow> rmatch r rest = [])"
proof (induction s)
  case Nil
  then obtain t ts where ts: "rmatch r [] = t # ts" and "m = []"
    by (auto split: list.splits)
  from ts have "t \<in> set (rmatch r [])" by simp
  then obtain u where "u \<in> lang r" "[] = u @ t" using rmatch_suffix by blast
  then have "[] \<in> lang r" "t = []" by auto
  with ts \<open>m = []\<close> have "[] = [] @ m @ [] \<and> rmatch r (m @ []) \<noteq> [] \<and> hd (rmatch r (m @ [])) = [] \<and> m \<in> lang r
     \<and> (\<forall>pre' rest. [] = pre' @ rest \<and> length pre' < length ([]::string) \<longrightarrow> rmatch r rest = [])"
    by simp
  then show ?case by blast
next
  case (Cons c cs)
  show ?case
  proof (cases "rmatch r (c # cs)")
    case Nil
    with Cons.prems have "re_search r cs = Some m" by simp
    with Cons.IH obtain pre post where p: "cs = pre @ m @ post" "rmatch r (m @ post) \<noteq> []"
      "hd (rmatch r (m @ post)) = post" "m \<in> lang r"
      "\<forall>pre' rest. cs = pre' @ rest \<and> length pre' < length pre \<longrightarrow> rmatch r rest = []" by blast
    have "\<forall>pre' rest. c # cs = pre' @ rest \<and> length pre' < length (c # pre) \<longrightarrow> rmatch r rest = []"
    proof (intro allI impI)
      fix pre' rest assume a: "c # cs = pre' @ rest \<and> length pre' < length (c # pre)"
      show "rmatch r rest = []"
      proof (cases pre')
        case Nil
        with a \<open>rmatch r (c # cs) = []\<close> show ?thesis by simp
      next
        case (Cons x xs)
        with a have "cs = xs @ rest \<and> length xs < length pre" by simp
        with p(5) show ?thesis by blast
      qed
    qed
    with p have "c # cs = (c # pre) @ m @ post \<and> rmatch r (m @ post) \<noteq> [] \<and> hd (rmatch r (m @ post)) = post \<and>
       m \<in> lang r \<and> (\<forall>pre' rest. c # cs = pre' @ rest \<and> length pre' < length (c # pre) \<longrightarrow> rmatch r rest = [])"
      by simp
    then show ?thesis by blast
  next
    case (Cons t ts)
    with Cons.prems have m: "m = take (length (c # cs) - length t) (c # cs)" by simp
    from Cons have "t \<in> set (rmatch r (c # cs))" by simp
    then obtain u where u: "u \<in> lang r" "c # cs = u @ t" using rmatch_suffix by blast
    with m have "m = u" by simp
    with u Cons have "c # cs = [] @ m @ t \<and> rmatch r (m @ t) \<noteq> [] \<and> hd (rmatch r (m @ t)) = t \<and>
       m \<in> lang r \<and> (\<forall>pre' rest. c # cs = pre' @ rest \<and> length pre' < length ([]::string) \<longrightarrow> rmatch r rest = [])"
      by simp
    then show ?thesis by blast
  qed
qed

lemma hd_concat_map:
  "concat (map f xs) \<noteq> [] \<Longrightarrow> \<exists>x \<in> set xs. f x \<noteq> [] \<and> hd (concat (map f xs)) = hd (f x)"
proof (induction xs)
  case Nil
  then show ?case by simp
next
  case (Cons a xs)
  then show ?case by (cases "f a = []") auto
qed

lemma stops_Plus: "rmatch (Plus a) s \<noteq> [] \<Longrightarrow> stops a (hd (rmatch (Plus a) s))"
proof (induction s)
  case Nil
  then show ?case by simp
next
  case (Cons c cs)
  then show ?case by (cases cs) (auto simp: stops_def hd_append split: if_splits)
qed

lemma stops_Seq:
  assumes "\<And>t. rmatch r2 t \<noteq> [] \<Longrightarrow> stops a (hd (rmatch r2 t))"
    and "rmatch (Seq r1 r2) s \<noteq> []"
  shows "stops a (hd (rmatch (Seq r1 r2) s))"
  using assms hd_concat_map [of "rmatch r2" "rmatch r1 s"] by auto

lemma concat_rmatch_Eps: "concat (map (rmatch Eps) xs) = xs"
  by (induction xs) auto

lemma rmatch_Seq_Eps: "rmatch (Seq r Eps) s = rmatch r s"
  by (simp add: concat_rmatch_Eps)

lemma atom_ok_digit: "atom_ok digit c = is_digit c"
  by (simp add: digit_def is_digit_def)

lemma lang_Plus_digit: "w \<in> lang (Plus digit) \<longleftrightarrow> digit_group w"
  by (simp add: digit_group_def list_all_iff atom_ok_digit)

lemma lang_dot_group:
  "w \<in> lang (Seq (Atom (Chr CHR ''.'')) (Plus digit)) \<longleftrightarrow> (\<exists>g. digit_group g \<and> w = CHR ''.'' # g)"
  by (auto simp: digit_group_def list_all_iff atom_ok_digit)

lemma in_lang_Seq: "w \<in> lang (Seq r1 r2) \<longleftrightarrow> (\<exists>u v. w = u @ v \<and> u \<in> lang r1 \<and> v \<in> lang r2)"
  by auto

lemma lang_times3:
  "w \<in> lang (times 3 r) \<longleftrightarrow> (\<exists>x1 x2 x3. w = x1 @ x2 @ x3 \<and> x1 \<in> lang r \<and> x2 \<in> lang r \<and> x3 \<in> lang r)"
proof -
  have "w \<in> lang (times 3 r) \<longleftrightarrow> w \<in> lang (Seq r (Seq r (Seq r Eps)))"
    by (simp add: numeral_3_eq_3)
  also have "\<dots> \<longleftrightarrow> (\<exists>x1 v. w = x1 @ v \<and> x1 \<in> lang r \<and> v \<in> lang (Seq r (Seq r Eps)))"
    by (rule in_lang_Seq)
  also have "\<dots> \<longleftrightarrow> (\<exists>x1 x2 v. w = x1 @ x2 @ v \<and> x1 \<in> lang r \<and> x2 \<in> lang r \<and> v \<in> lang (Seq r Eps))"
    unfolding in_lang_Seq [of _ r "Seq r Eps"] by (metis (no_types))
  also have "\<dots> \<longleftrightarrow> (\<exists>x1 x2 x3. w = x1 @ x2 @ x3 \<and> x1 \<in> lang r \<and> x2 \<in> lang r \<and> x3 \<in> lang r)"
    unfolding in_lang_Seq [of _ r Eps] by simp
  finally show ?thesis .
qed

lemma lang_ip_pattern: "m \<in> lang ip_pattern \<longleftrightarrow> quad m"
proof
  let ?X = "Seq (Atom (Chr CHR ''.'')) (Plus digit)"
  assume "m \<in> lang ip_pattern"
  then obtain a v where av: "m = a @ v" "a \<in> lang (Plus digit)" "v \<in> lang (times 3 ?X)"
    unfolding ip_pattern_def in_lang_Seq by blast
  from av(3) obtain x1 x2 x3 where x: "v = x1 @ x2 @ x3" "x1 \<in> lang ?X" "x2 \<in> lang ?X" "x3 \<in> lang ?X"
    unfolding lang_times3 by blast
  from x(2) obtain b where b: "digit_group b" "x1 = CHR ''.'' # b" unfolding lang_dot_group by blast
  from x(3) obtain c where c: "digit_group c" "x2 = CHR ''.'' # c" unfolding lang_dot_group by blast
  from x(4) obtain d where d: "digit_group d" "x3 = CHR ''.'' # d" unfolding lang_dot_group by blast
  from av(2) have a: "digit_group a" unfolding lang_Plus_digit .
  have "m = a @ CHR ''.'' # b @ CHR ''.'' # c @ CHR ''.'' # d"
    by (simp add: av(1) x(1) b(2) c(2) d(2))
  with a b(1) c(1) d(1) show "quad m" unfolding quad_def by blast
next
  let ?X = "Seq (Atom (Chr CHR ''.'')) (Plus digit)"
  assume "quad m"
  then obtain a b c d where g: "digit_group a" "digit_group b" "digit_group c" "digit_group d"
    and m: "m = a @ CHR ''.'' # b @ CHR ''.'' # c @ CHR ''.'' # d" unfolding quad_def by blast
  have x: "CHR ''.'' # b \<in> lang ?X" "CHR ''.'' # c \<in> lang ?X" "CHR ''.'' # d \<in> lang ?X"
    unfolding lang_dot_group using g by simp_all
  then have "(CHR ''.'' # b) @ (CHR ''.'' # c) @ (CHR ''.'' # d) \<in> lang (times 3 ?X)"
    unfolding lang_times3 by blast
  moreover have "a \<in> lang (Plus digit)" unfolding lang_Plus_digit by (rule g(1))
  ultimately have "a @ (CHR ''.'' # b) @ (CHR ''.'' # c) @ (CHR ''.'' # d) \<in> lang ip_pattern"
    unfolding ip_pattern_def in_lang_Seq by blast
  then show "m \<in> lang ip_pattern" by (simp add: m)
qed

lemma stops_ip_pattern: "rmatch ip_pattern s \<noteq> [] \<Longrightarrow> stops digit (hd (rmatch ip_pattern s))"
proof -
  let ?X = "Seq (Atom (Chr CHR ''.'')) (Plus digit)"
  have 1: "stops digit (hd (rmatch (Seq ?X Eps) t))" if "rmatch (Seq ?X Eps) t \<noteq> []" for t
    using that stops_Seq [of "Plus digit" digit "Atom (Chr CHR ''.'')" t] stops_Plus [of digit]
    unfolding rmatch_Seq_Eps by blast
  have 2: "stops digit (hd (rmatch (Seq ?X (Seq ?X Eps)) t))"
    if "rmatch (Seq ?X (Seq ?X Eps)) t \<noteq> []" for t
    using that 1 by (rule stops_Seq [rotated])
  have 3: "stops digit (hd (rmatch (Seq ?X (Seq ?X (Seq ?X Eps))) t))"
    if "rmatch (Seq ?X (Seq ?X (Seq ?X Eps))) t \<noteq> []" for t
    using that 2 by (rule stops_Seq [rotated])
  assume "rmatch ip_pattern s \<noteq> []"
  then show ?thesis
    unfolding ip_pattern_def numeral_3_eq_3 times.simps using 3 by (rule stops_Seq [rotated])
qed

lemma is_digit_dot: "\<not> is_digit CHR ''.''"
  by (simp add: is_digit_def)

lemma dots_digit_group: "digit_group g \<Longrightarrow> dots g = 0"
  using is_digit_dot by (auto simp: dots_def digit_group_def list_all_iff filter_empty_conv)

lemma quad_dots: "quad m \<Longrightarrow> dots m = 3"
proof -
  assume "quad m"
  then obtain a b c d where g: "digit_group a" "digit_group b" "digit_group c" "digit_group d"
    and m: "m = a @ CHR ''.'' # b @ CHR ''.'' # c @ CHR ''.'' # d" unfolding quad_def by blast
  from g have "dots a = 0" "dots b = 0" "dots c = 0" "dots d = 0" by (simp_all add: dots_digit_group)
  with m show ?thesis by (simp add: dots_def)
qed

lemma quad_chars: "quad m \<Longrightarrow> c \<in> set m \<Longrightarrow> is_digit c \<or> c = CHR ''.''"
  unfolding quad_def digit_group_def list_all_iff by auto

lemma quad_extend:
  assumes "quad m" and "quad (m @ x)" and "x \<noteq> []"
  shows "is_digit (hd x)"
proof -
  from assms have "dots (m @ x) = 3" "dots m = 3" by (simp_all add: quad_dots)
  then have "dots x = 0" by (simp add: dots_def)
  moreover from \<open>x \<noteq> []\<close> have "hd x \<in> set x" by simp
  ultimately have "hd x \<noteq> CHR ''.''" by (auto simp: dots_def filter_empty_conv)
  moreover from \<open>hd x \<in> set x\<close> have "hd x \<in> set (m @ x)" by simp
  ultimately show ?thesis using quad_chars [OF assms(2)] by blast
qed

lemma py_split_not_Nil: "py_split sep s \<noteq> []"
  by (induction s) (auto split: list.splits)

lemma py_split_cases:
  "py_split sep s = p # ps \<Longrightarrow>
     sep \<notin> set p \<and> (if ps = [] then s = p else (\<exists>rest. s = p @ sep # rest \<and> py_split sep rest = ps))"
proof (induction s arbitrary: p ps)
  case Nil
  then show ?case by simp
next
  case (Cons c cs)
  show ?case
  proof (cases "c = sep")
    case True
    with Cons.prems show ?thesis using py_split_not_Nil [of sep cs] by auto
  next
    case False
    obtain q qs where q: "py_split sep cs = q # qs" using py_split_not_Nil [of sep cs] by (cases "py_split sep cs") auto
    with False Cons.prems have pq: "p = c # q" "ps = qs" by auto
    from Cons.IH [OF q] False pq show ?thesis by auto
  qed
qed

lemma py_split_append:
  "sep \<notin> set p \<Longrightarrow> py_split sep (p @ sep # rest) = p # py_split sep rest"
  by (induction p) auto

lemma py_split_single: "sep \<notin> set p \<Longrightarrow> py_split sep p = [p]"
  by (induction p) auto

lemma digit_group_no_dot: "digit_group g \<Longrightarrow> CHR ''.'' \<notin> set g"
  using is_digit_dot by (auto simp: digit_group_def list_all_iff)

lemma ipv4_shaped_quad: "ipv4_shaped m \<longleftrightarrow> quad m"
proof
  assume "ipv4_shaped m"
  then obtain a b c d where s: "py_split CHR ''.'' m = [a, b, c, d]"
    and g: "digit_group a" "digit_group b" "digit_group c" "digit_group d"
    unfolding ipv4_shaped_def Let_def
    by (auto simp: length_Suc_conv numeral_eq_Suc)
  from py_split_cases [OF s] obtain r1 where r1: "m = a @ CHR ''.'' # r1" "py_split CHR ''.'' r1 = [b, c, d]" by auto
  from py_split_cases [OF r1(2)] obtain r2 where r2: "r1 = b @ CHR ''.'' # r2" "py_split CHR ''.'' r2 = [c, d]" by auto
  from py_split_cases [OF r2(2)] obtain r3 where r3: "r2 = c @ CHR ''.'' # r3" "py_split CHR ''.'' r3 = [d]" by auto
  from py_split_cases [OF r3(2)] have "r3 = d" by simp
  with r1 r2 r3 g show "quad m" unfolding quad_def by blast
next
  assume "quad m"
  then obtain a b c d where g: "digit_group a" "digit_group b" "digit_group c" "digit_group d"
    and m: "m = a @ CHR ''.'' # b @ CHR ''.'' # c @ CHR ''.'' # d" unfolding quad_def by blast
  from g have "py_split CHR ''.'' m = [a, b, c, d]"
    unfolding m by (simp add: py_split_append py_split_single digit_group_no_dot)
  with g show "ipv4_shaped m" unfolding ipv4_shaped_def by simp
qed

lemma re_search_first_match:
  assumes shape: "\<And>m. P m \<longleftrightarrow> m \<in> lang r"
    and stop: "\<And>s. rmatch r s \<noteq> [] \<Longrightarrow> stops a (hd (rmatch r s))"
    and ext: "\<And>m x. P m \<Longrightarrow> P (m @ x) \<Longrightarrow> x \<noteq> [] \<Longrightarrow> atom_ok a (hd x)"
    and found: "re_search r s = Some m"
  shows "first_match P s m"
proof -
  from re_search_Some [OF found] obtain pre post where p: "s = pre @ m @ post"
    "rmatch r (m @ post) \<noteq> []" "hd (rmatch r (m @ post)) = post" "m \<in> lang r"
    "\<forall>pre' rest. s = pre' @ rest \<and> length pre' < length pre \<longrightarrow> rmatch r rest = []" by blast
  from stop [OF p(2)] p(3) have st: "stops a post" by simp
  have "length pre < length pre' \<or> (length pre = length pre' \<and> length m' \<le> length m)"
    if h: "s = pre' @ m' @ post' \<and> P m'" for pre' m' post'
  proof -
    from h have "rmatch r (m' @ post') \<noteq> []" using shape rmatch_complete by blast
    have le: "length pre \<le> length pre'"
    proof (rule ccontr)
      assume "\<not> length pre \<le> length pre'"
      with h have "s = pre' @ (m' @ post') \<and> length pre' < length pre" by simp
      with p(5) have "rmatch r (m' @ post') = []" by blast
      with \<open>rmatch r (m' @ post') \<noteq> []\<close> show False by blast
    qed
    show ?thesis
    proof (cases "length pre = length pre'")
      case False
      with le show ?thesis by simp
    next
      case True
      with h p(1) have eq: "m @ post = m' @ post'" by auto
      have "length m' \<le> length m"
      proof (rule ccontr)
        assume "\<not> length m' \<le> length m"
        then have lt: "length m < length m'" by simp
        from eq have "m' = m @ drop (length m) m'"
          by (metis lt append_eq_append_conv_if append_take_drop_id less_imp_le_nat)
        then obtain x where x: "m' = m @ x" by blast
        with lt have "x \<noteq> []" by auto
        from x eq have "post = x @ post'" by simp
        with \<open>x \<noteq> []\<close> st have "\<not> atom_ok a (hd x)" by (cases x) (auto simp: stops_def)
        moreover have "atom_ok a (hd x)" using ext [of m x] h x \<open>x \<noteq> []\<close> p(4) shape by blast
        ultimately show False by blast
      qed
      with True show ?thesis by simp
    qed
  qed
  moreover have "P m" using p(4) shape by blast
  ultimately show ?thesis unfolding first_match_def using p(1) by blast
qed

lemma re_search_no_match:
  assumes shape: "\<And>m. P m \<longleftrightarrow> m \<in> lang r"
  shows "re_search r s = None \<longleftrightarrow> no_match P s"
proof
  assume n: "re_search r s = None"
  show "no_match P s" unfolding no_match_def
  proof (intro allI impI)
    fix pre m post assume "s = pre @ m @ post"
    with n have "rmatch r (m @ post) = []" unfolding re_search_None by blast
    then show "\<not> P m" using rmatch_complete shape by blast
  qed
next
  assume n: "no_match P s"
  show "re_search r s = None" unfolding re_search_None
  proof (intro allI impI)
    fix pre rest assume s: "s = pre @ rest"
    show "rmatch r rest = []"
    proof (rule ccontr)
      assume "rmatch r rest \<noteq> []"
      then obtain t where "t \<in> set (rmatch r rest)" by (cases "rmatch r rest") auto
      then obtain u where "u \<in> lang r" "rest = u @ t" using rmatch_suffix by blast
      with s n shape show False unfolding no_match_def by blast
    qed
  qed
qed

lemma ipv4_shaped_lang: "ipv4_shaped m \<longleftrightarrow> m \<in> lang ip_pattern"
  by (simp add: ipv4_shaped_quad lang_ip_pattern)

lemma ipv4_shaped_extend: "ipv4_shaped m \<Longrightarrow> ipv4_shaped (m @ x) \<Longrightarrow> x \<noteq> [] \<Longrightarrow> atom_ok digit (hd x)"
  unfolding ipv4_shaped_quad atom_ok_digit by (rule quad_extend)

lemma ip_search_Some: "re_search ip_pattern s = Some m \<Longrightarrow> first_match ipv4_shaped s m"
  using ipv4_shaped_lang stops_ip_pattern ipv4_shaped_extend by (rule re_search_first_match)

lemma ip_search_None: "re_search ip_pattern s = None \<longleftrightarrow> no_match ipv4_shaped s"
  using ipv4_shaped_lang by (rule re_search_no_match)

lemma channel_shaped_lang: "channel_shaped m \<longleftrightarrow> m \<in> lang channel_pattern"
proof
  assume "channel_shaped m"
  then have t: "take 2 m = ''ch''" and g: "digit_group (drop 2 m)"
    unfolding channel_shaped_def by simp_all
  have "m = take 2 m @ drop 2 m" by simp
  with t have m: "m = [CHR ''c''] @ [CHR ''h''] @ drop 2 m" by simp
  have "[CHR ''c''] \<in> lang (Atom (Chr CHR ''c''))" "[CHR ''h''] \<in> lang (Atom (Chr CHR ''h''))" by simp_all
  moreover from g have "drop 2 m \<in> lang (Plus digit)" unfolding lang_Plus_digit .
  ultimately have "[CHR ''c''] @ [CHR ''h''] @ drop 2 m \<in> lang channel_pattern"
    unfolding channel_pattern_def in_lang_Seq by blast
  with m show "m \<in> lang channel_pattern" by simp
next
  assume "m \<in> lang channel_pattern"
  then obtain g where "m = CHR ''c'' # CHR ''h'' # g" "digit_group g"
    unfolding channel_pattern_def in_lang_Seq lang_Plus_digit by auto
  then show "channel_shaped m" unfolding channel_shaped_def by simp
qed

lemma stops_channel_pattern:
  "rmatch channel_pattern s \<noteq> [] \<Longrightarrow> stops digit (hd (rmatch channel_pattern s))"
proof -
  have 1: "stops digit (hd (rmatch (Seq (Atom (Chr CHR ''h'')) (Plus digit)) t))"
    if "rmatch (Seq (Atom (Chr CHR ''h'')) (Plus digit)) t \<noteq> []" for t
    using that stops_Seq [of "Plus digit" digit "Atom (Chr CHR ''h'')" t] stops_Plus [of digit] by blast
  assume "rmatch channel_pattern s \<noteq> []"
  then show ?thesis unfolding channel_pattern_def using 1 by (rule stops_Seq [rotated])
qed

lemma channel_shaped_extend:
  assumes "channel_shaped m" and "channel_shaped (m @ x)" and "x \<noteq> []"
  shows "atom_ok digit (hd x)"
proof -
  from assms(1) have "length (take 2 m) = length ''ch''" unfolding channel_shaped_def by simp
  then have "2 \<le> length m" by simp
  then have "drop 2 (m @ x) = drop 2 m @ x" by simp
  with assms(2) have "list_all is_digit x" unfolding channel_shaped_def digit_group_def by simp
  with assms(3) show ?thesis unfolding atom_ok_digit by (cases x) auto
qed

lemma channel_search_Some: "re_search channel_pattern s = Some m \<Longrightarrow> first_match channel_shaped s m"
  using channel_shaped_lang stops_channel_pattern channel_shaped_extend by (rule re_search_first_match)

lemma channel_search_None: "re_search channel_pattern s = None \<longleftrightarrow> no_match channel_shaped s"
  using channel_shaped_lang by (rule re_search_no_match)

lemma first_match_unique:
  assumes "first_match P s m" and "first_match P s m'"
  shows "m = m'"
proof -
  from assms(1) obtain pre post where a: "s = pre @ m @ post" "P m"
    "\<forall>pre' m' post'. s = pre' @ m' @ post' \<and> P m' \<longrightarrow>
       length pre < length pre' \<or> (length pre = length pre' \<and> length m' \<le> length m)"
    unfolding first_match_def by blast
  from assms(2) obtain pre' post' where b: "s = pre' @ m' @ post'" "P m'"
    "\<forall>pre m post. s = pre @ m @ post \<and> P m \<longrightarrow>
       length pre' < length pre \<or> (length pre' = length pre \<and> length m \<le> length m')"
    unfolding first_match_def by blast
  from a(3) b(1,2) have 1: "length pre < length pre' \<or> (length pre = length pre' \<and> length m' \<le> length m)"
    by blast
  from b(3) a(1,2) have 2: "length pre' < length pre \<or> (length pre' = length pre \<and> length m \<le> length m')"
    by blast
  from 1 2 have l: "length pre = length pre'" "length m = length m'" by auto
  from a(1) b(1) have "pre @ m @ post = pre' @ m' @ post'" by simp
  with l(1) have "m @ post = m' @ post'" by simp
  with l(2) show ?thesis by simp
qed

lemma first_match_not_no_match: "first_match P s m \<Longrightarrow> \<not> no_match P s"
  unfolding first_match_def no_match_def by blast

text \<open>
  Claim C3. For every text, the IP extraction returns the first substring that is four
  dot-separated groups of one or more digits, with no check of the range 0--255 (so
  \<open>999.999.999.999\<close> matches), and \<open>127.0.0.1\<close> when the text has no such substring.
  The first such substring is unique, and the extraction is a total function without an
  error result.
\<close>

theorem extract_ip_first_match:
  "(no_match ipv4_shaped text \<longrightarrow> extract_ip text = ''127.0.0.1'') \<and>
   (\<not> no_match ipv4_shaped text \<longrightarrow> first_match ipv4_shaped text (extract_ip text)) \<and>
   (first_match ipv4_shaped text m \<longrightarrow> extract_ip text = m) \<and>
   ipv4_shaped ''999.999.999.999'' \<and> extract_ip ''999.999.999.999'' = ''999.999.999.999''"
proof (intro conjI impI)
  assume "no_match ipv4_shaped text"
  then have "re_search ip_pattern text = None" using ip_search_None by blast
  then show "extract_ip text = ''127.0.0.1''" by (simp add: extract_ip_def)
next
  assume "\<not> no_match ipv4_shaped text"
  then obtain m where m: "re_search ip_pattern text = Some m" using ip_search_None by fastforce
  then show "first_match ipv4_shaped text (extract_ip text)" by (simp add: extract_ip_def ip_search_Some)
next
  assume f: "first_match ipv4_shaped text m"
  then have "re_search ip_pattern text \<noteq> None"
    using first_match_not_no_match ip_search_None by blast
  then obtain m' where m': "re_search ip_pattern text = Some m'" by blast
  then have "first_match ipv4_shaped text m'" by (rule ip_search_Some)
  with f have "m' = m" using first_match_unique by blast
  with m' show "extract_ip text = m" by (simp add: extract_ip_def)
next
  show "ipv4_shaped ''999.999.999.999''" by code_simp
next
  show "extract_ip ''999.999.999.999'' = ''999.999.999.999''" by code_simp
qed

text \<open>Both cases of C3 on concrete texts.\<close>

theorem extract_ip_first_match_witness:
  "\<not> no_match ipv4_shaped ''ch12 Streaming from 10.0.0.5'' \<and>
   first_match ipv4_shaped ''ch12 Streaming from 10.0.0.5'' ''10.0.0.5'' \<and>
   extract_ip ''ch12 Streaming from 10.0.0.5'' = ''10.0.0.5'' \<and>
   no_match ipv4_shaped ''nothing here'' \<and> extract_ip ''nothing here'' = ''127.0.0.1''"
proof -
  have 1: "re_search ip_pattern ''ch12 Streaming from 10.0.0.5'' \<noteq> None" by code_simp
  have 2: "extract_ip ''ch12 Streaming from 10.0.0.5'' = ''10.0.0.5''" by code_simp
  have 3: "re_search ip_pattern ''nothing here'' = None" by code_simp
  from 1 have a: "\<not> no_match ipv4_shaped ''ch12 Streaming from 10.0.0.5''"
    unfolding ip_search_None .
  from 3 have b: "no_match ipv4_shaped ''nothing here''" unfolding ip_search_None .
  have c: "first_match ipv4_shaped ''ch12 Streaming from 10.0.0.5'' ''10.0.0.5''"
    using extract_ip_first_match [of "''ch12 Streaming from 10.0.0.5''", THEN conjunct2, THEN conjunct1, THEN mp, OF a]
    unfolding 2 .
  have d: "extract_ip ''nothing here'' = ''127.0.0.1''"
    using extract_ip_first_match [of "''nothing here''", THEN conjunct1, THEN mp, OF b] .
  have e: "extract_ip ''ch12 Streaming from 10.0.0.5'' = ''10.0.0.5''"
    using extract_ip_first_match [of "''ch12 Streaming from 10.0.0.5''" "''10.0.0.5''",
        THEN conjunct2, THEN conjunct2, THEN conjunct1, THEN mp, OF c] .
  from a c e b d show ?thesis by (intro conjI)
qed

section \<open>The status and channel extractions\<close>

lemma extract_status_dash:
  assumes "CHR ''-'' \<in> set text"
  shows "\<exists>before rest. text = before @ CHR ''-'' # rest \<and> CHR ''-'' \<notin> set before \<and>
           extract_status text = Inr before"
proof -
  obtain p ps where s: "py_split CHR ''-'' text = p # ps"
    using py_split_not_Nil [of "CHR ''-''" "text"] by (cases "py_split CHR ''-'' text") auto
  from py_split_cases [OF s] have p: "CHR ''-'' \<notin> set p"
    and c: "if ps = [] then text = p else (\<exists>rest. text = p @ CHR ''-'' # rest \<and> py_split CHR ''-'' rest = ps)"
    by simp_all
  from assms p c have "ps \<noteq> []" by auto
  with c obtain rest where "text = p @ CHR ''-'' # rest" by auto
  moreover from assms s have "extract_status text = Inr p" by (simp add: extract_status_def py_first_def)
  ultimately show ?thesis using p by blast
qed

text \<open>
  Claim C4. For every text, the status extraction returns the substring before the first
  \<open>-\<close> when the text has one, and \<open>unknown\<close> otherwise; \<open>REC-showname\<close> gives \<open>REC\<close> and
  \<open>noseparator\<close> gives \<open>unknown\<close>.
\<close>

theorem extract_status_before_dash:
  "(CHR ''-'' \<in> set text \<longrightarrow>
      (\<exists>before rest. text = before @ CHR ''-'' # rest \<and> CHR ''-'' \<notin> set before \<and>
         extract_status text = Inr before)) \<and>
   (CHR ''-'' \<notin> set text \<longrightarrow> extract_status text = Inr ''unknown'') \<and>
   extract_status ''REC-showname'' = Inr ''REC'' \<and>
   extract_status ''noseparator'' = Inr ''unknown''"
proof (intro conjI impI)
  assume "CHR ''-'' \<in> set text"
  then show "\<exists>before rest. text = before @ CHR ''-'' # rest \<and> CHR ''-'' \<notin> set before \<and>
         extract_status text = Inr before" by (rule extract_status_dash)
next
  assume "CHR ''-'' \<notin> set text"
  then show "extract_status text = Inr ''unknown''" by (simp add: extract_status_def)
next
  show "extract_status ''REC-showname'' = Inr ''REC''" by code_simp
next
  show "extract_status ''noseparator'' = Inr ''unknown''" by code_simp
qed

text \<open>Both cases of C4 on the info strings \<open>REC-ch5-details\<close> and \<open>recording\<close>.\<close>

theorem extract_status_before_dash_witness:
  "CHR ''-'' \<in> set ''REC-ch5-details'' \<and>
   (\<exists>before rest. ''REC-ch5-details'' = before @ CHR ''-'' # rest \<and> CHR ''-'' \<notin> set before \<and>
      extract_status ''REC-ch5-details'' = Inr before) \<and>
   CHR ''-'' \<notin> set ''recording'' \<and> extract_status ''recording'' = Inr ''unknown''"
proof -
  have a: "CHR ''-'' \<in> set ''REC-ch5-details''" by simp
  have b: "CHR ''-'' \<notin> set ''recording''" by simp
  note t1 = extract_status_before_dash [of "''REC-ch5-details''", THEN conjunct1, THEN mp, OF a]
  note t2 = extract_status_before_dash [of "''recording''", THEN conjunct2, THEN conjunct1, THEN mp, OF b]
  from a t1 b t2 show ?thesis by (intro conjI)
qed

lemma extract_status_total: "\<exists>status. extract_status info = Inr status"
  using extract_status_dash [of info] by (cases "CHR ''-'' \<in> set info") (auto simp: extract_status_def)

text \<open>
  Claim C5. For every text, the channel extraction returns the first substring that is
  \<open>ch\<close> followed by one or more digits (there is one such substring at most), and
  \<open>ch0\<close> when the text has none; the channel label of a stream and the channel label of
  a recording are both this extraction.
\<close>

theorem extract_channel_first_match:
  "(no_match channel_shaped text \<longrightarrow> extract_channel text = ''ch0'') \<and>
   (\<not> no_match channel_shaped text \<longrightarrow> first_match channel_shaped text (extract_channel text)) \<and>
   (first_match channel_shaped text m \<longrightarrow> extract_channel text = m) \<and>
   fst (snd (stream_record env text)) = extract_channel text \<and>
   (\<exists>status. recording_loop ((name, JStr text) # rest) fam =
      recording_loop rest (set_child (name, status, extract_channel text) 1 fam))"
proof (intro conjI impI)
  assume "no_match channel_shaped text"
  then have "re_search channel_pattern text = None" using channel_search_None by blast
  then show "extract_channel text = ''ch0''" by (simp add: extract_channel_def)
next
  assume "\<not> no_match channel_shaped text"
  then obtain m where m: "re_search channel_pattern text = Some m" using channel_search_None by fastforce
  then show "first_match channel_shaped text (extract_channel text)"
    by (simp add: extract_channel_def channel_search_Some)
next
  assume f: "first_match channel_shaped text m"
  then have "re_search channel_pattern text \<noteq> None"
    using first_match_not_no_match channel_search_None by blast
  then obtain m' where m': "re_search channel_pattern text = Some m'" by blast
  then have "first_match channel_shaped text m'" by (rule channel_search_Some)
  with f have "m' = m" using first_match_unique by blast
  with m' show "extract_channel text = m" by (simp add: extract_channel_def)
next
  show "fst (snd (stream_record env text)) = extract_channel text"
    by (simp add: stream_record_def Let_def split: prod.splits)
next
  from extract_status_total [of "text"] obtain status where "extract_status text = Inr status" by blast
  then have "recording_loop ((name, JStr text) # rest) fam =
      recording_loop rest (set_child (name, status, extract_channel text) 1 fam)" by simp
  then show "\<exists>status. recording_loop ((name, JStr text) # rest) fam =
      recording_loop rest (set_child (name, status, extract_channel text) 1 fam)" by blast
qed

text \<open>Both cases of C5, on an activity line and on a text without a channel.\<close>

theorem extract_channel_first_match_witness:
  "\<not> no_match channel_shaped ''ch12 Streaming from 10.0.0.5'' \<and>
   first_match channel_shaped ''ch12 Streaming from 10.0.0.5'' ''ch12'' \<and>
   extract_channel ''ch12 Streaming from 10.0.0.5'' = ''ch12'' \<and>
   no_match channel_shaped ''REC-details'' \<and> extract_channel ''REC-details'' = ''ch0''"
proof -
  have 1: "re_search channel_pattern ''ch12 Streaming from 10.0.0.5'' \<noteq> None" by code_simp
  have 2: "extract_channel ''ch12 Streaming from 10.0.0.5'' = ''ch12''" by code_simp
  have 3: "re_search channel_pattern ''REC-details'' = None" by code_simp
  from 1 have a: "\<not> no_match channel_shaped ''ch12 Streaming from 10.0.0.5''"
    unfolding channel_search_None .
  from 3 have b: "no_match channel_shaped ''REC-details''" unfolding channel_search_None .
  have c: "first_match channel_shaped ''ch12 Streaming from 10.0.0.5'' ''ch12''"
    using extract_channel_first_match [of "''ch12 Streaming from 10.0.0.5''", THEN conjunct2, THEN conjunct1, THEN mp, OF a]
    unfolding 2 .
  have d: "extract_channel ''REC-details'' = ''ch0''"
    using extract_channel_first_match [of "''REC-details''", THEN conjunct1, THEN mp, OF b] .
  have e: "extract_channel ''ch12 Streaming from 10.0.0.5'' = ''ch12''"
    using extract_channel_first_match [of "''ch12 Streaming from 10.0.0.5''" "''ch12''",
        THEN conjunct2, THEN conjunct2, THEN conjunct1, THEN mp, OF c] .
  from a c e b d show ?thesis by (intro conjI)
qed

section \<open>Gauge families and the loop over the activities\<close>

lemma map_of_set_child: "map_of (set_child l v fam) = (map_of fam)(l \<mapsto> v)"
  by (induction fam) (auto simp: fun_eq_iff)

lemma keys_set_child: "fst ` set (set_child l v fam) = insert l (fst ` set fam)"
  by (simp add: dom_map_of_conv_image_fst [symmetric] map_of_set_child)

lemma distinct_set_child:
  "distinct (map fst fam) \<Longrightarrow> distinct (map fst (set_child l v fam))"
proof (induction fam)
  case Nil
  then show ?case by simp
next
  case (Cons p fam)
  obtain k w where p: "p = (k, w)" by (cases p)
  have "k \<notin> fst ` set (set_child l v fam)" if "k \<noteq> l"
    using that Cons.prems p by (simp add: keys_set_child)
  with Cons p show ?case by auto
qed

lemma map_of_fold_set_child:
  "map_of (foldl (\<lambda>f x. set_child (g x) c f) fam xs) =
     (\<lambda>l. if l \<in> g ` set xs then Some c else map_of fam l)"
proof (induction xs arbitrary: fam)
  case Nil
  then show ?case by simp
next
  case (Cons x xs)
  show ?case by (auto simp: Cons.IH map_of_set_child fun_eq_iff)
qed

lemma distinct_fold_set_child:
  "distinct (map fst fam) \<Longrightarrow> distinct (map fst (foldl (\<lambda>f x. set_child (g x) c f) fam xs))"
  by (induction xs arbitrary: fam) (simp_all add: distinct_set_child)

lemma extract_ip_not_empty: "extract_ip status \<noteq> []"
proof (cases "re_search ip_pattern status")
  case None
  then show ?thesis by (simp add: extract_ip_def)
next
  case (Some m)
  then have "first_match ipv4_shaped status m" by (rule ip_search_Some)
  then have "quad m" unfolding first_match_def ipv4_shaped_quad by blast
  then have "m \<noteq> []" unfolding quad_def digit_group_def by auto
  with Some show ?thesis by (simp add: extract_ip_def)
qed

lemma extract_channel_not_empty: "extract_channel status \<noteq> []"
proof (cases "re_search channel_pattern status")
  case None
  then show ?thesis by (simp add: extract_channel_def)
next
  case (Some m)
  then have "first_match channel_shaped status m" by (rule channel_search_Some)
  then have "take 2 m = ''ch''" unfolding first_match_def channel_shaped_def by blast
  then have "m \<noteq> []" by auto
  with Some show ?thesis by (simp add: extract_channel_def)
qed

lemma stream_record_parts:
  "stream_record env status =
     (extract_ip status, extract_channel status,
      fst (fst (lookup_coords env (extract_ip status))),
      snd (fst (lookup_coords env (extract_ip status))))"
  by (simp add: stream_record_def Let_def split: prod.splits)

lemma publish_stream_sets:
  "publish_stream env status fam = set_child (stream_labels env (stream_record env status)) 1 fam"
  unfolding publish_stream_def stream_record_parts
  using extract_ip_not_empty extract_channel_not_empty by simp

lemma stream_loop_strings:
  "stream_loop env (map (\<lambda>(key, status). (key, JStr status)) acts) fam =
     Done (foldl (\<lambda>f (key, status). publish_stream env status f) fam acts)"
  by (induction acts arbitrary: fam) (auto split: prod.splits)

lemma lookup_coords_loopback: "lookup_coords env ''127.0.0.1'' = ((None, None), [])"
  by (simp add: lookup_coords_def)

lemma lookup_coords_absent:
  "geo_lookup env ip = GeoRaises \<or> geo_lookup env ip = GeoNone \<or> geo_lookup env ip = GeoInfo None \<Longrightarrow>
     fst (lookup_coords env ip) = (None, None)"
  by (auto simp: lookup_coords_def)

lemma fold_publish_stream:
  "foldl (\<lambda>f (key, status). publish_stream env status f) fam acts =
     foldl (\<lambda>f status. set_child (stream_labels env (stream_record env status)) 1 f) fam (map snd acts)"
  by (induction acts arbitrary: fam) (auto simp: publish_stream_sets)

text \<open>
  Claim C6. When the extracted address is \<open>127.0.0.1\<close> the geolocation backend is not
  called and latitude and longitude are \<open>None\<close>. For another address the backend is
  called once; a lookup that raises, finds nothing or has no location leaves latitude
  and longitude \<open>None\<close> as well, and the loop over the activities goes on: whatever the
  backend does, every entry of the activities is processed, in order.
\<close>

theorem geo_lookup_skipped_or_swallowed:
  "lookup_coords env ''127.0.0.1'' = ((None, None), []) \<and>
   (extract_ip status = ''127.0.0.1'' \<longrightarrow>
      stream_record env status = (''127.0.0.1'', extract_channel status, None, None)) \<and>
   (extract_ip status \<noteq> ''127.0.0.1'' \<longrightarrow>
      snd (lookup_coords env (extract_ip status)) = [extract_ip status]) \<and>
   (geo_lookup env (extract_ip status) = GeoRaises \<or>
    geo_lookup env (extract_ip status) = GeoNone \<or>
    geo_lookup env (extract_ip status) = GeoInfo None \<longrightarrow>
      stream_record env status = (extract_ip status, extract_channel status, None, None)) \<and>
   stream_loop env (map (\<lambda>(key, status). (key, JStr status)) acts) fam =
     Done (foldl (\<lambda>f status. set_child (stream_labels env (stream_record env status)) 1 f) fam (map snd acts))"
proof (intro conjI impI)
  show "lookup_coords env ''127.0.0.1'' = ((None, None), [])" by (rule lookup_coords_loopback)
next
  assume "extract_ip status = ''127.0.0.1''"
  then show "stream_record env status = (''127.0.0.1'', extract_channel status, None, None)"
    by (simp add: stream_record_parts lookup_coords_loopback)
next
  assume "extract_ip status \<noteq> ''127.0.0.1''"
  then show "snd (lookup_coords env (extract_ip status)) = [extract_ip status]"
    using extract_ip_not_empty [of status] by (simp add: lookup_coords_def)
next
  assume "geo_lookup env (extract_ip status) = GeoRaises \<or>
    geo_lookup env (extract_ip status) = GeoNone \<or>
    geo_lookup env (extract_ip status) = GeoInfo None"
  then have "fst (lookup_coords env (extract_ip status)) = (None, None)"
    by (rule lookup_coords_absent)
  then show "stream_record env status = (extract_ip status, extract_channel status, None, None)"
    by (simp add: stream_record_parts)
next
  show "stream_loop env (map (\<lambda>(key, status). (key, JStr status)) acts) fam =
     Done (foldl (\<lambda>f status. set_child (stream_labels env (stream_record env status)) 1 f) fam (map snd acts))"
    by (simp add: stream_loop_strings fold_publish_stream)
qed

text \<open>
  C6 on two activities with a backend that raises on every address, and on an activity
  without an address.
\<close>

theorem geo_lookup_skipped_or_swallowed_witness:
  "extract_ip ''ch7 tuner'' = ''127.0.0.1'' \<and>
   stream_record known_env ''ch7 tuner'' = (''127.0.0.1'', ''ch7'', None, None) \<and>
   extract_ip ''ch12 Streaming from 10.0.0.5'' \<noteq> ''127.0.0.1'' \<and>
   snd (lookup_coords raising_env ''10.0.0.5'') = [''10.0.0.5''] \<and>
   geo_lookup raising_env (extract_ip ''ch12 Streaming from 10.0.0.5'') = GeoRaises \<and>
   stream_record raising_env ''ch12 Streaming from 10.0.0.5'' = (''10.0.0.5'', ''ch12'', None, None) \<and>
   stream_loop raising_env
     [(''a1'', JStr ''ch12 Streaming from 10.0.0.5''), (''a2'', JStr ''ch3 Streaming from 10.0.0.9'')] [] =
     Done [((''10.0.0.5'', ''ch12'', ''None'', ''None''), 1), ((''10.0.0.9'', ''ch3'', ''None'', ''None''), 1)]"
proof -
  have ip7: "extract_ip ''ch7 tuner'' = ''127.0.0.1''" by code_simp
  have ch7: "extract_channel ''ch7 tuner'' = ''ch7''" by code_simp
  have ip12: "extract_ip ''ch12 Streaming from 10.0.0.5'' = ''10.0.0.5''" by code_simp
  have ch12: "extract_channel ''ch12 Streaming from 10.0.0.5'' = ''ch12''" by code_simp
  have ip3: "extract_ip ''ch3 Streaming from 10.0.0.9'' = ''10.0.0.9''" by code_simp
  have ch3: "extract_channel ''ch3 Streaming from 10.0.0.9'' = ''ch3''" by code_simp
  have g: "geo_lookup raising_env ip = GeoRaises" for ip
    by (simp add: raising_env_def raising_geo_def)
  have a: "stream_record known_env ''ch7 tuner'' = (''127.0.0.1'', ''ch7'', None, None)"
    using geo_lookup_skipped_or_swallowed [of known_env "''ch7 tuner''", THEN conjunct2, THEN conjunct1, THEN mp, OF ip7]
    unfolding ch7 .
  have b: "stream_record raising_env ''ch12 Streaming from 10.0.0.5'' = (''10.0.0.5'', ''ch12'', None, None)"
    using geo_lookup_skipped_or_swallowed [of raising_env "''ch12 Streaming from 10.0.0.5''",
        THEN conjunct2, THEN conjunct2, THEN conjunct2, THEN conjunct1, THEN mp, OF disjI1, OF g]
    unfolding ip12 ch12 .
  have c: "stream_record raising_env ''ch3 Streaming from 10.0.0.9'' = (''10.0.0.9'', ''ch3'', None, None)"
    using geo_lookup_skipped_or_swallowed [of raising_env "''ch3 Streaming from 10.0.0.9''",
        THEN conjunct2, THEN conjunct2, THEN conjunct2, THEN conjunct1, THEN mp, OF disjI1, OF g]
    unfolding ip3 ch3 .
  have d: "stream_loop raising_env
     [(''a1'', JStr ''ch12 Streaming from 10.0.0.5''), (''a2'', JStr ''ch3 Streaming from 10.0.0.9'')] [] =
     Done [((''10.0.0.5'', ''ch12'', ''None'', ''None''), 1), ((''10.0.0.9'', ''ch3'', ''None'', ''None''), 1)]"
    using geo_lookup_skipped_or_swallowed [of raising_env _
        "[(''a1'', ''ch12 Streaming from 10.0.0.5''), (''a2'', ''ch3 Streaming from 10.0.0.9'')]" "[]",
        THEN conjunct2, THEN conjunct2, THEN conjunct2, THEN conjunct2]
    by (simp add: b c stream_labels_def coord_str_def label_str_def)
  have n: "extract_ip ''ch12 Streaming from 10.0.0.5'' \<noteq> ''127.0.0.1''" unfolding ip12 by simp
  have e: "snd (lookup_coords raising_env ''10.0.0.5'') = [''10.0.0.5'']"
    using geo_lookup_skipped_or_swallowed [of raising_env "''ch12 Streaming from 10.0.0.5''",
        THEN conjunct2, THEN conjunct2, THEN conjunct1, THEN mp, OF n]
    unfolding ip12 .
  from ip7 a n e g [of "extract_ip ''ch12 Streaming from 10.0.0.5''"] b d show ?thesis
    by (intro conjI)
qed

text \<open>
  Claim C10. An activity is never dropped: the address and the channel extracted from
  its text are never empty, so the guard of line 87 holds and the entry sets its sample
  (one \<open>labels(...).set(1)\<close> for each entry); after the loop every entry of the
  activities has its sample, with the value 1. Entries with equal label values share
  the sample.
\<close>

theorem every_activity_published:
  "extract_ip status \<noteq> [] \<and> extract_channel status \<noteq> [] \<and>
   publish_stream env status fam = set_child (stream_labels env (stream_record env status)) 1 fam \<and>
   (\<exists>fam'. stream_loop env (map (\<lambda>(key, status). (key, JStr status)) acts) [] = Done fam' \<and>
      (\<forall>(key, status) \<in> set acts. map_of fam' (stream_labels env (stream_record env status)) = Some 1))"
proof (intro conjI)
  show "extract_ip status \<noteq> []" by (rule extract_ip_not_empty)
  show "extract_channel status \<noteq> []" by (rule extract_channel_not_empty)
  show "publish_stream env status fam = set_child (stream_labels env (stream_record env status)) 1 fam"
    by (rule publish_stream_sets)
  let ?fam = "foldl (\<lambda>f status. set_child (stream_labels env (stream_record env status)) 1 f) [] (map snd acts)"
  have "stream_loop env (map (\<lambda>(key, status). (key, JStr status)) acts) [] = Done ?fam"
    by (simp add: stream_loop_strings fold_publish_stream)
  moreover have "\<forall>(key, status) \<in> set acts. map_of ?fam (stream_labels env (stream_record env status)) = Some 1"
    by (auto simp: map_of_fold_set_child intro: rev_image_eqI)
  ultimately show "\<exists>fam'. stream_loop env (map (\<lambda>(key, status). (key, JStr status)) acts) [] = Done fam' \<and>
      (\<forall>(key, status) \<in> set acts. map_of fam' (stream_labels env (stream_record env status)) = Some 1)" by blast
qed

text \<open>C10 on two activities, one of them without an address.\<close>

theorem every_activity_published_witness:
  "\<exists>fam'. stream_loop known_env
       [(''a1'', JStr ''ch12 Streaming from 10.0.0.5''), (''a2'', JStr ''ch7 tuner'')] [] = Done fam' \<and>
     map_of fam' (''10.0.0.5'', ''ch12'', ''48.85'', ''2.35'') = Some 1 \<and>
     map_of fam' (''127.0.0.1'', ''ch7'', ''None'', ''None'') = Some 1"
proof -
  have a: "stream_labels known_env (stream_record known_env ''ch12 Streaming from 10.0.0.5'') =
      (''10.0.0.5'', ''ch12'', ''48.85'', ''2.35'')"
    by code_simp
  have b: "stream_labels known_env (stream_record known_env ''ch7 tuner'') =
      (''127.0.0.1'', ''ch7'', ''None'', ''None'')"
    by code_simp
  from every_activity_published [of _ known_env _
      "[(''a1'', ''ch12 Streaming from 10.0.0.5''), (''a2'', ''ch7 tuner'')]"]
  show ?thesis by (simp add: a b)
qed

section \<open>Failed fetches\<close>


lemma publish_guide_frame:
  "streams (state_of (publish_guide env j s)) = streams s"
  "recordings (state_of (publish_guide env j s)) = recordings s"
  "clients (state_of (publish_guide env j s)) = clients s"
  "polling_interval_seconds (state_of (publish_guide env j s)) = polling_interval_seconds s"
  by (simp_all add: publish_guide_def split: sum.splits)


lemma fetch_recordings_frame:
  "streams (state_of (fetch_recordings r s)) = streams s"
  "shows_gauge (state_of (fetch_recordings r s)) = shows_gauge s"
  "airings (state_of (fetch_recordings r s)) = airings s"
  "clients (state_of (fetch_recordings r s)) = clients s"
  "polling_interval_seconds (state_of (fetch_recordings r s)) = polling_interval_seconds s"
  by (simp_all add: fetch_recordings_def split: reply.splits sum.splits outcome.splits)

lemma fetch_clients_frame:
  "streams (state_of (fetch_clients env r s)) = streams s"
  "shows_gauge (state_of (fetch_clients env r s)) = shows_gauge s"
  "airings (state_of (fetch_clients env r s)) = airings s"
  "recordings (state_of (fetch_clients env r s)) = recordings s"
  "polling_interval_seconds (state_of (fetch_clients env r s)) = polling_interval_seconds s"
  by (simp_all add: fetch_clients_def split: reply.splits sum.splits outcome.splits)

lemma state_of_sleep: "state_of (sleep s) = s"
  by (simp add: sleep_def)


lemma run_cycle_cases:
  obtains (dvr) e s where "fetch_dvr env (dvr_reply c) self = Raised e s"
      and "run_cycle env c self = Raised e s"
  | (programs) s1 e s where "fetch_dvr env (dvr_reply c) self = Done s1"
      and "fetch_recordings (programs_reply c) s1 = Raised e s"
      and "run_cycle env c self = Raised e s"
  | (clients) s1 s2 e s where "fetch_dvr env (dvr_reply c) self = Done s1"
      and "fetch_recordings (programs_reply c) s1 = Done s2"
      and "fetch_clients env (clients_reply c) s2 = Raised e s"
      and "run_cycle env c self = Raised e s"
  | (slept) s1 s2 s3 where "fetch_dvr env (dvr_reply c) self = Done s1"
      and "fetch_recordings (programs_reply c) s1 = Done s2"
      and "fetch_clients env (clients_reply c) s2 = Done s3"
      and "run_cycle env c self = sleep s3"
proof (cases "fetch_dvr env (dvr_reply c) self")
  case (Raised e s)
  then show ?thesis using dvr by (simp add: run_cycle_def)
next
  case d: (Done s1)
  show ?thesis
  proof (cases "fetch_recordings (programs_reply c) s1")
    case (Raised e s)
    then show ?thesis using d programs by (simp add: run_cycle_def)
  next
    case r: (Done s2)
    show ?thesis
    proof (cases "fetch_clients env (clients_reply c) s2")
      case (Raised e s)
      then show ?thesis using d r clients by (simp add: run_cycle_def)
    next
      case (Done s3)
      then show ?thesis using d r slept by (simp add: run_cycle_def)
    qed
  qed
qed






lemma publish_guide_Done:
  assumes "publish_guide env (JObj d) s = Done s'"
  shows "\<exists>guide. py_get d ''guide'' (JObj []) = JObj guide \<and>
     float_raises env (py_get guide ''num_shows'' (JInt 0)) = None \<and>
     float_raises env (py_get guide ''num_airings'' (JInt 0)) = None \<and>
     s' = s\<lparr>shows_gauge := py_get guide ''num_shows'' (JInt 0),
             airings := py_get guide ''num_airings'' (JInt 0)\<rparr>"
proof (cases "py_get d ''guide'' (JObj [])")
  case (JObj guide)
  with assms show ?thesis
    by (auto simp: publish_guide_def dict_get_def scalar_set_def split: option.splits)
qed (use assms in \<open>simp_all add: publish_guide_def dict_get_def\<close>)

lemma publish_guide_completes:
  assumes "py_get d ''guide'' (JObj []) = JObj guide"
    and "float_raises env (py_get guide ''num_shows'' (JInt 0)) = None"
    and "float_raises env (py_get guide ''num_airings'' (JInt 0)) = None"
  shows "publish_guide env (JObj d) s =
     Done (s\<lparr>shows_gauge := py_get guide ''num_shows'' (JInt 0),
              airings := py_get guide ''num_airings'' (JInt 0)\<rparr>)"
  using assms by (simp add: publish_guide_def dict_get_def scalar_set_def)

lemma fetch_dvr_Done:
  assumes "fetch_dvr env (Body (JObj d)) self = Done self'"
  shows "\<exists>acts fam. py_get d ''activity'' (JObj []) = JObj acts \<and>
     stream_loop env acts [] = Done fam \<and>
     publish_guide env (JObj d) (self\<lparr>streams := fam\<rparr>) = Done self'"
proof (cases "py_get d ''activity'' (JObj [])")
  case (JObj acts)
  with assms show ?thesis
    by (auto simp: fetch_dvr_def dict_get_def dict_items_def split: outcome.splits)
qed (use assms in \<open>simp_all add: fetch_dvr_def dict_get_def dict_items_def\<close>)

text \<open>
  Claim C8. Whenever \<open>fetch_dvr\<close> returns on a response, \<open>channels_shows\<close> holds the
  response's \<open>guide.num_shows\<close> and \<open>channels_airings\<close> its \<open>guide.num_airings\<close>, each
  0 when the \<open>guide\<close> object or the field is missing. It returns on every response
  whose activities are texts, whose \<open>guide\<close> is missing or an object, and whose two
  counts \<open>float\<close> accepts.
\<close>

theorem guide_counts_published:
  "(fetch_dvr env (Body (JObj d)) self = Done self' \<longrightarrow>
      (case map_of d ''guide'' of
         None \<Rightarrow> shows_gauge self' = JInt 0 \<and> airings self' = JInt 0
       | Some g \<Rightarrow>
           (\<exists>guide. g = JObj guide \<and>
              shows_gauge self' = (case map_of guide ''num_shows'' of None \<Rightarrow> JInt 0 | Some n \<Rightarrow> n) \<and>
              airings self' = (case map_of guide ''num_airings'' of None \<Rightarrow> JInt 0 | Some n \<Rightarrow> n)))) \<and>
   (py_get d ''activity'' (JObj []) = JObj (map (\<lambda>(key, status). (key, JStr status)) acts) \<and>
    py_get d ''guide'' (JObj []) = JObj guide \<and>
    float_raises env (py_get guide ''num_shows'' (JInt 0)) = None \<and>
    float_raises env (py_get guide ''num_airings'' (JInt 0)) = None \<longrightarrow>
      (\<exists>s. fetch_dvr env (Body (JObj d)) self = Done s \<and>
         shows_gauge s = py_get guide ''num_shows'' (JInt 0) \<and>
         airings s = py_get guide ''num_airings'' (JInt 0)))"
proof (intro conjI impI)
  assume "fetch_dvr env (Body (JObj d)) self = Done self'"
  from fetch_dvr_Done [OF this] obtain acts fam where
    "publish_guide env (JObj d) (self\<lparr>streams := fam\<rparr>) = Done self'" by blast
  from publish_guide_Done [OF this] obtain guide where
    g: "py_get d ''guide'' (JObj []) = JObj guide"
    and s: "self' = self\<lparr>streams := fam, shows_gauge := py_get guide ''num_shows'' (JInt 0),
             airings := py_get guide ''num_airings'' (JInt 0)\<rparr>" by blast
  show "case map_of d ''guide'' of
         None \<Rightarrow> shows_gauge self' = JInt 0 \<and> airings self' = JInt 0
       | Some g \<Rightarrow>
           (\<exists>guide. g = JObj guide \<and>
              shows_gauge self' = (case map_of guide ''num_shows'' of None \<Rightarrow> JInt 0 | Some n \<Rightarrow> n) \<and>
              airings self' = (case map_of guide ''num_airings'' of None \<Rightarrow> JInt 0 | Some n \<Rightarrow> n))"
  proof (cases "map_of d ''guide''")
    case None
    with g have "guide = []" by (simp add: py_get_def)
    with s None show ?thesis by (simp add: py_get_def)
  next
    case (Some x)
    with g have "x = JObj guide" by (simp add: py_get_def)
    with s Some show ?thesis by (simp add: py_get_def)
  qed
next
  assume a: "py_get d ''activity'' (JObj []) = JObj (map (\<lambda>(key, status). (key, JStr status)) acts) \<and>
    py_get d ''guide'' (JObj []) = JObj guide \<and>
    float_raises env (py_get guide ''num_shows'' (JInt 0)) = None \<and>
    float_raises env (py_get guide ''num_airings'' (JInt 0)) = None"
  let ?fam = "foldl (\<lambda>f (key, status). publish_stream env status f) [] acts"
  let ?s = "self\<lparr>streams := ?fam, shows_gauge := py_get guide ''num_shows'' (JInt 0),
              airings := py_get guide ''num_airings'' (JInt 0)\<rparr>"
  from a have "fetch_dvr env (Body (JObj d)) self = publish_guide env (JObj d) (self\<lparr>streams := ?fam\<rparr>)"
    by (simp add: fetch_dvr_def dict_get_def dict_items_def stream_loop_strings)
  also from a have "\<dots> = Done ?s" by (simp add: publish_guide_completes)
  finally have "fetch_dvr env (Body (JObj d)) self = Done ?s \<and>
         shows_gauge ?s = py_get guide ''num_shows'' (JInt 0) \<and>
         airings ?s = py_get guide ''num_airings'' (JInt 0)" by simp
  then show "\<exists>s. fetch_dvr env (Body (JObj d)) self = Done s \<and>
         shows_gauge s = py_get guide ''num_shows'' (JInt 0) \<and>
         airings s = py_get guide ''num_airings'' (JInt 0)" by blast
qed

text \<open>C8 on the first scenario of the specification: 40 shows and 900 airings.\<close>

theorem guide_counts_published_witness:
  "fetch_dvr known_env (Body scenario_dvr) start =
     Done (start\<lparr>streams := [((''10.0.0.5'', ''ch12'', ''48.85'', ''2.35''), 1)],
                 shows_gauge := JInt 40, airings := JInt 900\<rparr>) \<and>
   shows_gauge (start\<lparr>streams := [((''10.0.0.5'', ''ch12'', ''48.85'', ''2.35''), 1)],
                 shows_gauge := JInt 40, airings := JInt 900\<rparr>) = JInt 40 \<and>
   float_raises known_env (JInt 40) = None \<and> float_raises known_env (JInt 900) = None \<and>
   (\<exists>s. fetch_dvr known_env (Body scenario_dvr) published = Done s \<and>
      shows_gauge s = JInt 40 \<and> airings s = JInt 900)"
proof -
  let ?d = "[(''activity'', JObj [(''a1'', JStr ''ch12 Streaming from 10.0.0.5'')]),
           (''guide'', JObj [(''num_shows'', JInt 40), (''num_airings'', JInt 900)])]"
  let ?s = "start\<lparr>streams := [((''10.0.0.5'', ''ch12'', ''48.85'', ''2.35''), 1)],
                 shows_gauge := JInt 40, airings := JInt 900\<rparr>"
  have run: "fetch_dvr known_env (Body (JObj ?d)) start = Done ?s" by code_simp
  have f: "float_raises known_env (JInt 40) = None" "float_raises known_env (JInt 900) = None"
    by (simp_all add: known_env_def example_float_raises_def)
  from guide_counts_published [where env = known_env and d = ?d and self = start and self' = ?s,
      THEN conjunct1, THEN mp, OF run]
  have 1: "shows_gauge ?s = JInt 40" by simp
  have "\<exists>s. fetch_dvr known_env (Body (JObj ?d)) published = Done s \<and>
      shows_gauge s = py_get [(''num_shows'', JInt 40), (''num_airings'', JInt 900)] ''num_shows'' (JInt 0) \<and>
      airings s = py_get [(''num_shows'', JInt 40), (''num_airings'', JInt 900)] ''num_airings'' (JInt 0)"
    by (rule guide_counts_published [where env = known_env and d = ?d
          and acts = "[(''a1'', ''ch12 Streaming from 10.0.0.5'')]"
          and guide = "[(''num_shows'', JInt 40), (''num_airings'', JInt 900)]" and self = published,
          THEN conjunct2, THEN mp])
       (simp add: py_get_def f)
  then have 2: "\<exists>s. fetch_dvr known_env (Body (JObj ?d)) published = Done s \<and>
      shows_gauge s = JInt 40 \<and> airings s = JInt 900" by (simp add: py_get_def)
  from run 1 f 2 show ?thesis unfolding scenario_dvr_def by (intro conjI)
qed






section \<open>The families after a pass of the loop\<close>

lemma stream_loop_texts:
  "stream_loop env items fam = Done fam' \<Longrightarrow>
     \<exists>acts. items = map (\<lambda>(key, status). (key, JStr status)) acts \<and>
       fam' = foldl (\<lambda>f status. set_child (stream_labels env (stream_record env status)) 1 f) fam (map snd acts)"
proof (induction items arbitrary: fam)
  case Nil
  then show ?case by simp
next
  case (Cons p items)
  obtain key v where p: "p = (key, v)" by (cases p)
  from Cons.prems p obtain status where v: "v = JStr status" by (cases v) simp_all
  with Cons.prems p have "stream_loop env items (set_child (stream_labels env (stream_record env status)) 1 fam) = Done fam'"
    by (simp add: publish_stream_sets)
  from Cons.IH [OF this] obtain acts where t: "items = map (\<lambda>(key, status). (key, JStr status)) acts"
    "fam' = foldl (\<lambda>f status. set_child (stream_labels env (stream_record env status)) 1 f)
       (set_child (stream_labels env (stream_record env status)) 1 fam) (map snd acts)" by blast
  then have "p # items = map (\<lambda>(key, status). (key, JStr status)) ((key, status) # acts) \<and>
     fam' = foldl (\<lambda>f status. set_child (stream_labels env (stream_record env status)) 1 f) fam (map snd ((key, status) # acts))"
    using p v by simp
  then show ?case by (rule exI)
qed

lemma recording_loop_texts:
  "recording_loop items fam = Done fam' \<Longrightarrow>
     \<exists>infos. items = map (\<lambda>(name, info). (name, JStr info)) infos \<and>
       fam' = foldl (\<lambda>f x. set_child (case x of (name, info) \<Rightarrow>
                (name, projr (extract_status info), extract_channel info)) 1 f) fam infos"
proof (induction items arbitrary: fam)
  case Nil
  then show ?case by simp
next
  case (Cons p items)
  obtain name v where p: "p = (name, v)" by (cases p)
  from Cons.prems p obtain info where v: "v = JStr info" by (cases v) simp_all
  obtain status where st: "extract_status info = Inr status" using extract_status_total by blast
  let ?fam = "set_child (name, projr (extract_status info), extract_channel info) 1 fam"
  from Cons.prems p v st have "recording_loop items ?fam = Done fam'" by simp
  from Cons.IH [OF this] obtain infos where t: "items = map (\<lambda>(name, info). (name, JStr info)) infos"
    "fam' = foldl (\<lambda>f x. set_child (case x of (name, info) \<Rightarrow>
                (name, projr (extract_status info), extract_channel info)) 1 f) ?fam infos"
    by blast
  then have "p # items = map (\<lambda>(name, info). (name, JStr info)) ((name, info) # infos) \<and>
     fam' = foldl (\<lambda>f x. set_child (case x of (name, info) \<Rightarrow>
                (name, projr (extract_status info), extract_channel info)) 1 f) fam ((name, info) # infos)"
    using p v by simp
  then show ?case by (rule exI)
qed

lemma client_loop_objects:
  "client_loop env cs fam = Done fam' \<Longrightarrow>
     \<exists>objs. cs = map JObj objs \<and>
       fam' = foldl (\<lambda>f client. set_child (client_record env client) 1 f) fam objs"
proof (induction cs arbitrary: fam)
  case Nil
  then show ?case by simp
next
  case (Cons c cs)
  from Cons.prems obtain client where c: "c = JObj client" by (cases c) simp_all
  with Cons.prems have "client_loop env cs (set_child (client_record env client) 1 fam) = Done fam'"
    by simp
  from Cons.IH [OF this] obtain objs where t: "cs = map JObj objs"
    "fam' = foldl (\<lambda>f client. set_child (client_record env client) 1 f)
       (set_child (client_record env client) 1 fam) objs" by blast
  then have "c # cs = map JObj (client # objs) \<and>
     fam' = foldl (\<lambda>f client. set_child (client_record env client) 1 f) fam (client # objs)"
    using c by simp
  then show ?case by (rule exI)
qed

lemma fetch_dvr_streams:
  assumes "fetch_dvr env r self = Done s"
  shows "\<exists>d acts. r = Body (JObj d) \<and>
     py_get d ''activity'' (JObj []) = JObj (map (\<lambda>(key, status). (key, JStr status)) acts) \<and>
     streams s = foldl (\<lambda>f status. set_child (stream_labels env (stream_record env status)) 1 f) [] (map snd acts)"
proof -
  from assms obtain j where r: "r = Body j" by (cases r) (simp_all add: fetch_dvr_def)
  with assms obtain d where j: "j = JObj d"
    by (cases j) (simp_all add: fetch_dvr_def dict_get_def)
  from fetch_dvr_Done [OF assms [unfolded r j]] obtain items fam where
    a: "py_get d ''activity'' (JObj []) = JObj items" "stream_loop env items [] = Done fam"
    "publish_guide env (JObj d) (self\<lparr>streams := fam\<rparr>) = Done s" by blast
  from publish_guide_frame(1) [of env "JObj d" "self\<lparr>streams := fam\<rparr>"] a(3)
  have "streams s = fam" by simp
  with stream_loop_texts [OF a(2)] a(1) r j show ?thesis by auto
qed

lemma fetch_recordings_family:
  assumes "fetch_recordings r self = Done s"
  shows "\<exists>infos. r = Body (JObj (map (\<lambda>(name, info). (name, JStr info)) infos)) \<and>
     recordings s = foldl (\<lambda>f x. set_child (case x of (name, info) \<Rightarrow>
                (name, projr (extract_status info), extract_channel info)) 1 f) [] infos"
proof -
  from assms obtain j where r: "r = Body j" by (cases r) (simp_all add: fetch_recordings_def)
  with assms obtain items where j: "j = JObj items"
    by (cases j) (simp_all add: fetch_recordings_def dict_items_def)
  from assms r j obtain fam where "recording_loop items [] = Done fam" "recordings s = fam"
    by (auto simp: fetch_recordings_def dict_items_def split: outcome.splits)
  with recording_loop_texts [of items "[]" fam] r j show ?thesis by auto
qed

lemma fetch_clients_family:
  assumes "fetch_clients env r self = Done s"
  shows "\<exists>body objs. r = Body body \<and> py_iter body = Inr (map JObj objs) \<and>
     clients s = foldl (\<lambda>f client. set_child (client_record env client) 1 f) [] objs"
proof -
  from assms obtain body where r: "r = Body body" by (cases r) (simp_all add: fetch_clients_def)
  with assms obtain cs where i: "py_iter body = Inr cs"
    by (cases "py_iter body") (simp_all add: fetch_clients_def)
  from assms r i obtain fam where "client_loop env cs [] = Done fam" "clients s = fam"
    by (auto simp: fetch_clients_def split: outcome.splits)
  with client_loop_objects [of env cs "[]" fam] r i show ?thesis by auto
qed

lemma recording_labels_image:
  "(name, status, channel) \<in> (\<lambda>(name, info). (name, projr (extract_status info), extract_channel info)) ` set infos
     \<longleftrightarrow> (\<exists>info. (name, info) \<in> set infos \<and> extract_status info = Inr status \<and>
            channel = extract_channel info)"
proof
  assume "(name, status, channel) \<in> (\<lambda>(name, info). (name, projr (extract_status info), extract_channel info)) ` set infos"
  then obtain info where i: "(name, info) \<in> set infos" "status = projr (extract_status info)"
    "channel = extract_channel info" by auto
  moreover obtain st where "extract_status info = Inr st" using extract_status_total by blast
  ultimately show "\<exists>info. (name, info) \<in> set infos \<and> extract_status info = Inr status \<and>
            channel = extract_channel info" by auto
next
  assume "\<exists>info. (name, info) \<in> set infos \<and> extract_status info = Inr status \<and>
            channel = extract_channel info"
  then obtain info where "(name, info) \<in> set infos" "extract_status info = Inr status"
    "channel = extract_channel info" by blast
  then show "(name, status, channel) \<in> (\<lambda>(name, info). (name, projr (extract_status info), extract_channel info)) ` set infos"
    by (force simp: image_iff)
qed

lemma run_cycle_Done:
  assumes "run_cycle env c self = Done self'"
  obtains s1 s2 where "fetch_dvr env (dvr_reply c) self = Done s1"
    and "fetch_recordings (programs_reply c) s1 = Done s2"
    and "fetch_clients env (clients_reply c) s2 = Done self'"
proof (cases rule: run_cycle_cases [of env c self])
  case (slept s1 s2 s3)
  with assms have "sleep s3 = Done self'" by simp
  then have "s3 = self'" by (simp add: sleep_def split: if_splits)
  with slept that show ?thesis by blast
qed (use assms in simp_all)

text \<open>
  Claim C9. After a pass of the loop in which nothing raised, each of the three families
  with labels holds exactly the label combinations of the response of that pass, each
  once and with the value 1, whatever it held before: a combination that is not in the
  response has no sample (it is not reported as 0).
\<close>

theorem families_replaced_each_cycle:
  "run_cycle env c self = Done self' \<longrightarrow>
     (\<exists>d acts. dvr_reply c = Body (JObj d) \<and>
        py_get d ''activity'' (JObj []) = JObj (map (\<lambda>(key, status). (key, JStr status)) acts) \<and>
        distinct (map fst (streams self')) \<and>
        (\<forall>l. map_of (streams self') l =
           (if l \<in> (\<lambda>status. stream_labels env (stream_record env status)) ` snd ` set acts then Some 1 else None))) \<and>
     (\<exists>infos. programs_reply c = Body (JObj (map (\<lambda>(name, info). (name, JStr info)) infos)) \<and>
        distinct (map fst (recordings self')) \<and>
        (\<forall>name status channel. map_of (recordings self') (name, status, channel) =
           (if \<exists>info. (name, info) \<in> set infos \<and> extract_status info = Inr status \<and>
                 channel = extract_channel info
            then Some 1 else None))) \<and>
     (\<exists>body objs. clients_reply c = Body body \<and> py_iter body = Inr (map JObj objs) \<and>
        distinct (map fst (clients self')) \<and>
        (\<forall>l. map_of (clients self') l =
           (if l \<in> client_record env ` set objs then Some 1 else None)))"
proof
  assume run: "run_cycle env c self = Done self'"
  from run obtain s1 s2 where d: "fetch_dvr env (dvr_reply c) self = Done s1"
    and r: "fetch_recordings (programs_reply c) s1 = Done s2"
    and k: "fetch_clients env (clients_reply c) s2 = Done self'" by (rule run_cycle_Done)
  have st: "streams self' = streams s1"
    using fetch_recordings_frame(1) [of "programs_reply c" s1]
      fetch_clients_frame(1) [of env "clients_reply c" s2] r k by simp
  have rc: "recordings self' = recordings s2"
    using fetch_clients_frame(4) [of env "clients_reply c" s2] k by simp
  from fetch_dvr_streams [OF d] obtain dd acts where a: "dvr_reply c = Body (JObj dd)"
    "py_get dd ''activity'' (JObj []) = JObj (map (\<lambda>(key, status). (key, JStr status)) acts)"
    "streams s1 = foldl (\<lambda>f status. set_child (stream_labels env (stream_record env status)) 1 f) [] (map snd acts)"
    by blast
  have "distinct (map fst (streams self'))"
    unfolding st a(3) by (rule distinct_fold_set_child) simp
  moreover have "\<forall>l. map_of (streams self') l =
           (if l \<in> (\<lambda>status. stream_labels env (stream_record env status)) ` snd ` set acts then Some 1 else None)"
    unfolding st a(3) by (simp add: map_of_fold_set_child)
  ultimately have 1: "\<exists>d acts. dvr_reply c = Body (JObj d) \<and>
        py_get d ''activity'' (JObj []) = JObj (map (\<lambda>(key, status). (key, JStr status)) acts) \<and>
        distinct (map fst (streams self')) \<and>
        (\<forall>l. map_of (streams self') l =
           (if l \<in> (\<lambda>status. stream_labels env (stream_record env status)) ` snd ` set acts then Some 1 else None))"
    using a(1,2) by blast
  from fetch_recordings_family [OF r] obtain infos where
    b: "programs_reply c = Body (JObj (map (\<lambda>(name, info). (name, JStr info)) infos))"
    "recordings s2 = foldl (\<lambda>f x. set_child (case x of (name, info) \<Rightarrow>
                (name, projr (extract_status info), extract_channel info)) 1 f) [] infos"
    by blast
  have "distinct (map fst (recordings self'))"
    unfolding rc b(2) by (rule distinct_fold_set_child) simp
  moreover have "\<forall>name status channel. map_of (recordings self') (name, status, channel) =
           (if \<exists>info. (name, info) \<in> set infos \<and> extract_status info = Inr status \<and>
                 channel = extract_channel info
            then Some 1 else None)"
  proof (intro allI)
    fix name status channel
    have "map_of (recordings self') (name, status, channel) =
       (if (name, status, channel) \<in>
             (\<lambda>(name, info). (name, projr (extract_status info), extract_channel info)) ` set infos
        then Some 1 else None)"
      unfolding rc b(2) map_of_fold_set_child by simp
    then show "map_of (recordings self') (name, status, channel) =
           (if \<exists>info. (name, info) \<in> set infos \<and> extract_status info = Inr status \<and>
                 channel = extract_channel info
            then Some 1 else None)"
      unfolding recording_labels_image .
  qed
  ultimately have 2: "\<exists>infos. programs_reply c = Body (JObj (map (\<lambda>(name, info). (name, JStr info)) infos)) \<and>
        distinct (map fst (recordings self')) \<and>
        (\<forall>name status channel. map_of (recordings self') (name, status, channel) =
           (if \<exists>info. (name, info) \<in> set infos \<and> extract_status info = Inr status \<and>
                 channel = extract_channel info
            then Some 1 else None))"
    using b(1) by blast
  from fetch_clients_family [OF k] obtain body objs where
    e: "clients_reply c = Body body" "py_iter body = Inr (map JObj objs)"
    "clients self' = foldl (\<lambda>f client. set_child (client_record env client) 1 f) [] objs"
    by blast
  have "distinct (map fst (clients self'))"
    unfolding e(3) by (rule distinct_fold_set_child) simp
  moreover have "\<forall>l. map_of (clients self') l =
           (if l \<in> client_record env ` set objs then Some 1 else None)"
    unfolding e(3) by (simp add: map_of_fold_set_child)
  ultimately have 3: "\<exists>body objs. clients_reply c = Body body \<and> py_iter body = Inr (map JObj objs) \<and>
        distinct (map fst (clients self')) \<and>
        (\<forall>l. map_of (clients self') l =
           (if l \<in> client_record env ` set objs then Some 1 else None))"
    using e(1,2) by blast
  from 1 2 3 show "(\<exists>d acts. dvr_reply c = Body (JObj d) \<and>
        py_get d ''activity'' (JObj []) = JObj (map (\<lambda>(key, status). (key, JStr status)) acts) \<and>
        distinct (map fst (streams self')) \<and>
        (\<forall>l. map_of (streams self') l =
           (if l \<in> (\<lambda>status. stream_labels env (stream_record env status)) ` snd ` set acts then Some 1 else None))) \<and>
     (\<exists>infos. programs_reply c = Body (JObj (map (\<lambda>(name, info). (name, JStr info)) infos)) \<and>
        distinct (map fst (recordings self')) \<and>
        (\<forall>name status channel. map_of (recordings self') (name, status, channel) =
           (if \<exists>info. (name, info) \<in> set infos \<and> extract_status info = Inr status \<and>
                 channel = extract_channel info
            then Some 1 else None))) \<and>
     (\<exists>body objs. clients_reply c = Body body \<and> py_iter body = Inr (map JObj objs) \<and>
        distinct (map fst (clients self')) \<and>
        (\<forall>l. map_of (clients self') l =
           (if l \<in> client_record env ` set objs then Some 1 else None)))"
    by (intro conjI)
qed

text \<open>
  C9 on the scenario pass, and on a pass without any activity, recording or client that
  follows it: every sample of the scenario is gone.
\<close>

theorem families_replaced_each_cycle_witness:
  "run_cycle known_env scenario_cycle start = Done published \<and>
   map_of (streams published) (''10.0.0.5'', ''ch12'', ''48.85'', ''2.35'') = Some 1 \<and>
   map_of (recordings published) (''MyShow'', ''REC'', ''ch5'') = Some 1 \<and>
   run_cycle known_env idle_cycle published =
     Done (published\<lparr>streams := [], recordings := [], shows_gauge := JInt 0, airings := JInt 0,
                     clients := []\<rparr>) \<and>
   map_of (streams (published\<lparr>streams := [], recordings := [], shows_gauge := JInt 0,
                     airings := JInt 0, clients := []\<rparr>))
     (''10.0.0.5'', ''ch12'', ''48.85'', ''2.35'') = None"
proof -
  let ?idle = "published\<lparr>streams := [], recordings := [], shows_gauge := JInt 0, airings := JInt 0,
                     clients := []\<rparr>"
  have run1: "run_cycle known_env scenario_cycle start = Done published" by code_simp
  have run2: "run_cycle known_env idle_cycle published = Done ?idle" by code_simp
  have rec: "stream_labels known_env (stream_record known_env ''ch12 Streaming from 10.0.0.5'') =
      (''10.0.0.5'', ''ch12'', ''48.85'', ''2.35'')"
    by code_simp
  have st: "extract_status ''REC-ch5-details'' = Inr ''REC''" by code_simp
  have ch: "extract_channel ''REC-ch5-details'' = ''ch5''" by code_simp
  note t1 = families_replaced_each_cycle [where env = known_env and c = scenario_cycle
      and self = start and self' = published, THEN mp, OF run1]
  note t2 = families_replaced_each_cycle [where env = known_env and c = idle_cycle
      and self = published and self' = ?idle, THEN mp, OF run2]
  from t1 obtain d acts where a: "dvr_reply scenario_cycle = Body (JObj d)"
    "py_get d ''activity'' (JObj []) = JObj (map (\<lambda>(key, status). (key, JStr status)) acts)"
    "\<forall>l. map_of (streams published) l =
           (if l \<in> (\<lambda>status. stream_labels known_env (stream_record known_env status)) ` snd ` set acts then Some 1 else None)" by blast
  from a(1) have "d = [(''activity'', JObj [(''a1'', JStr ''ch12 Streaming from 10.0.0.5'')]),
           (''guide'', JObj [(''num_shows'', JInt 40), (''num_airings'', JInt 900)])]"
    by (simp add: scenario_cycle_def scenario_dvr_def)
  with a(2) have "map (\<lambda>(key, status). (key, JStr status)) acts = [(''a1'', JStr ''ch12 Streaming from 10.0.0.5'')]"
    by (auto simp: py_get_def)
  then have "acts = [(''a1'', ''ch12 Streaming from 10.0.0.5'')]"
    by (auto simp: map_eq_Cons_conv)
  with a(3) rec have 1: "map_of (streams published) (''10.0.0.5'', ''ch12'', ''48.85'', ''2.35'') = Some 1"
    by simp
  from t1 obtain infos where b: "programs_reply scenario_cycle = Body (JObj (map (\<lambda>(name, info). (name, JStr info)) infos))"
    "\<forall>name status channel. map_of (recordings published) (name, status, channel) =
           (if \<exists>info. (name, info) \<in> set infos \<and> extract_status info = Inr status \<and>
                 channel = extract_channel info
            then Some 1 else None)" by blast
  from b(1) have "map (\<lambda>(name, info). (name, JStr info)) infos =
      [(''MyShow'', JStr ''REC-ch5-details'' :: string json)]"
    by (simp add: scenario_cycle_def scenario_programs_def)
  then have "infos = [(''MyShow'', ''REC-ch5-details'')]" by (auto simp: map_eq_Cons_conv)
  with b(2) st ch have 2: "map_of (recordings published) (''MyShow'', ''REC'', ''ch5'') = Some 1"
    by simp
  from t2 obtain d' acts' where c: "dvr_reply idle_cycle = Body (JObj d')"
    "py_get d' ''activity'' (JObj []) = JObj (map (\<lambda>(key, status). (key, JStr status)) acts')"
    "\<forall>l. map_of (streams ?idle) l =
           (if l \<in> (\<lambda>status. stream_labels known_env (stream_record known_env status)) ` snd ` set acts' then Some 1 else None)" by blast
  from c(1) have "d' = []" by (simp add: idle_cycle_def)
  with c(2) have "acts' = []" by (simp add: py_get_def)
  with c(3) have 3: "map_of (streams ?idle) (''10.0.0.5'', ''ch12'', ''48.85'', ''2.35'') = None"
    by simp
  from run1 1 2 run2 3 show ?thesis by (intro conjI)
qed

end
